theory Spec2Isabelle
  imports Main "HOL-Library.AList"
begin

section \<open>Strings, constants and the two regular expressions\<close>

text \<open>
  The script \<^verbatim>\<open>dist/webflow-multilingual.js\<close> is one immediately invoked function.
  A JavaScript string is modelled as a \<^typ>\<open>string\<close> (one \<^typ>\<open>char\<close> per code unit),
  \<^verbatim>\<open>null\<close> and \<^verbatim>\<open>undefined\<close> as \<^const>\<open>None\<close>.
\<close>

definition DEFAULT_LANG :: string where
  "DEFAULT_LANG = ''ca''"

definition LANG_STORAGE_KEY :: string where
  "LANG_STORAGE_KEY = ''lang''"

text \<open>The character class \<^verbatim>\<open>[a-z]\<close>.\<close>

definition lower_az :: "char \<Rightarrow> bool" where
  "lower_az c = (c \<in> set ''abcdefghijklmnopqrstuvwxyz'')"

text \<open>
  The spec's "language code": exactly two lowercase ASCII letters, what
  \<^verbatim>\<open>([a-z]{2})\<close> captures.
\<close>

definition is_lang_code :: "string \<Rightarrow> bool" where
  "is_lang_code s = (length s = 2 \<and> list_all lower_az s)"

text \<open>The character class \<^verbatim>\<open>[^\[]\<close>.\<close>

definition not_bracket :: "char \<Rightarrow> bool" where
  "not_bracket c = (c \<noteq> CHR ''['')"

text \<open>
  \<^verbatim>\<open>LANG_REG_EXP = /\[\[([a-z]{2})\]\]([^\[]+)/g\<close> anchored at the head of the
  string: the two captures and the text after the match (where \<^verbatim>\<open>lastIndex\<close> then
  points). The last group is greedy and nothing follows it, so it takes the longest run
  of characters other than \<^verbatim>\<open>[\<close>, and the match fails when that run is empty.
\<close>

fun LANG_REG_EXP_at :: "string \<Rightarrow> (string \<times> string \<times> string) option" where
  "LANG_REG_EXP_at (b1 # b2 # x # y # e1 # e2 # rest) =
     (if b1 = CHR ''['' \<and> b2 = CHR ''['' \<and> lower_az x \<and> lower_az y
         \<and> e1 = CHR '']'' \<and> e2 = CHR '']'' \<and> takeWhile not_bracket rest \<noteq> []
      then Some ([x, y], takeWhile not_bracket rest, dropWhile not_bracket rest)
      else None)"
| "LANG_REG_EXP_at _ = None"

text \<open>
  A regular expression without the sticky flag tries every start position from left to
  right and returns the first match.
\<close>

fun first_match :: "(string \<Rightarrow> 'a option) \<Rightarrow> string \<Rightarrow> 'a option" where
  "first_match at [] = at []"
| "first_match at (c # cs) =
     (case at (c # cs) of Some m \<Rightarrow> Some m | None \<Rightarrow> first_match at cs)"

text \<open>
  \<^verbatim>\<open>LANG_REG_EXP.exec(s)\<close>, where \<open>s\<close> is the part of the node value from
  \<^verbatim>\<open>lastIndex\<close> on, and \<^verbatim>\<open>LANG_REG_EXP.test(s)\<close> from \<^verbatim>\<open>lastIndex = 0\<close>.
\<close>

definition LANG_REG_EXP_exec :: "string \<Rightarrow> (string \<times> string \<times> string) option" where
  "LANG_REG_EXP_exec s = first_match LANG_REG_EXP_at s"

definition LANG_REG_EXP_test :: "string \<Rightarrow> bool" where
  "LANG_REG_EXP_test s = (LANG_REG_EXP_exec s \<noteq> None)"

section \<open>Language dictionaries\<close>

text \<open>
  A dictionary is a plain object \<^verbatim>\<open>{}\<close> whose keys are two-letter codes. Its own
  string keys are enumerated in insertion order and an assignment to an existing key
  keeps the key's place, which is what \<^const>\<open>AList.update\<close> does on an association
  list. Properties inherited from \<^verbatim>\<open>Object.prototype\<close> are not modelled: none of
  them has a name of two characters.
\<close>

type_synonym dict = "(string \<times> string) list"

definition dict_set :: "dict \<Rightarrow> string \<Rightarrow> string \<Rightarrow> dict" where
  "dict_set d k v = AList.update k v d"

definition dict_get :: "dict \<Rightarrow> string \<Rightarrow> string option" where
  "dict_get d k = map_of d k"

definition Object_keys :: "dict \<Rightarrow> string list" where
  "Object_keys d = map fst d"

lemma LANG_REG_EXP_at_shorter:
  "LANG_REG_EXP_at s = Some (code, text, rest) \<Longrightarrow> length rest < length s"
proof (induction s rule: LANG_REG_EXP_at.induct)
  case (1 b1 b2 x y e1 e2 r)
  have "length (dropWhile not_bracket r) \<le> length r"
    by (rule length_dropWhile_le)
  with 1 show ?case by (auto split: if_splits)
qed simp_all

lemma first_match_shorter:
  "first_match LANG_REG_EXP_at s = Some (code, text, rest) \<Longrightarrow> length rest < length s"
proof (induction s)
  case Nil
  then show ?case by simp
next
  case (Cons c cs)
  show ?case
  proof (cases "LANG_REG_EXP_at (c # cs)")
    case None
    with Cons show ?thesis by fastforce
  next
    case (Some m)
    with Cons.prems have "LANG_REG_EXP_at (c # cs) = Some (code, text, rest)" by simp
    then show ?thesis by (rule LANG_REG_EXP_at_shorter)
  qed
qed

lemma LANG_REG_EXP_exec_shorter:
  "LANG_REG_EXP_exec s = Some (code, text, rest) \<Longrightarrow> length rest < length s"
  unfolding LANG_REG_EXP_exec_def by (rule first_match_shorter)

text \<open>
  The loop of the \<^verbatim>\<open>DOMContentLoaded\<close> handler over one node value:
  \<^verbatim>\<open>while ((match = LANG_REG_EXP.exec(nodeValue)) !== null) { dict[match[1]] = match[2];
  if (match[1] === DEFAULT_LANG) hasDefault = true; }\<close>, started with
  \<^verbatim>\<open>lastIndex = 0\<close>, \<^verbatim>\<open>dict = {}\<close> and \<^verbatim>\<open>hasDefault = false\<close>.
\<close>

function parse_loop :: "string \<Rightarrow> dict \<times> bool \<Rightarrow> dict \<times> bool" where
  "parse_loop s (d, hasDefault) =
     (case LANG_REG_EXP_exec s of
        None \<Rightarrow> (d, hasDefault)
      | Some (langCode, text, rest) \<Rightarrow>
          parse_loop rest (dict_set d langCode text, hasDefault \<or> langCode = DEFAULT_LANG))"
  by pat_completeness auto
termination
  by (relation "measure (\<lambda>(s, _). length s)") (auto dest: LANG_REG_EXP_exec_shorter)

declare parse_loop.simps [simp del]

text \<open>The spec's \<open>parse\<close>: the dictionary the loop builds from one text blob.\<close>

definition parse :: "string \<Rightarrow> dict" where
  "parse s = fst (parse_loop s ([], False))"

text \<open>
  For the proofs: every match the loop sees, in order, as pairs of the two captures; and
  the text of a tag \<^verbatim>\<open>[[xx]]\<close>.
\<close>

function exec_all :: "string \<Rightarrow> (string \<times> string) list" where
  "exec_all s =
     (case LANG_REG_EXP_exec s of
        None \<Rightarrow> []
      | Some (langCode, text, rest) \<Rightarrow> (langCode, text) # exec_all rest)"
  by pat_completeness auto
termination
  by (relation "measure length") (auto dest: LANG_REG_EXP_exec_shorter)

declare exec_all.simps [simp del]

definition tag :: "string \<Rightarrow> string" where
  "tag c = ''[['' @ c @ '']]''"

section \<open>JavaScript's falsy strings\<close>

text \<open>
  \<^verbatim>\<open>a || b\<close> on values that are strings, \<^verbatim>\<open>null\<close> or \<^verbatim>\<open>undefined\<close>: the
  left operand when it is truthy (a non-empty string), the right one otherwise.
\<close>

definition truthy :: "string option \<Rightarrow> bool" where
  "truthy v = (case v of None \<Rightarrow> False | Some s \<Rightarrow> s \<noteq> [])"

definition or_str :: "string option \<Rightarrow> string \<Rightarrow> string" where
  "or_str v b = (case v of None \<Rightarrow> b | Some s \<Rightarrow> if s \<noteq> [] then s else b)"

section \<open>The browser: storage, text nodes, elements, console\<close>

datatype error = SecurityError | SyntaxError

text \<open>
  \<^verbatim>\<open>localStorage\<close>: either every access throws (storage disabled), or it is a
  key-value store, whose operations succeed (a full store is not modelled).
\<close>

datatype storage = Unavailable | Available "string \<rightharpoonup> string"

fun ls_setItem :: "storage \<Rightarrow> string \<Rightarrow> string \<Rightarrow> error + storage" where
  "ls_setItem Unavailable k v = Inl SecurityError"
| "ls_setItem (Available m) k v = Inr (Available (m(k \<mapsto> v)))"

fun ls_removeItem :: "storage \<Rightarrow> string \<Rightarrow> error + storage" where
  "ls_removeItem Unavailable k = Inl SecurityError"
| "ls_removeItem (Available m) k = Inr (Available (m(k := None)))"

fun ls_getItem :: "storage \<Rightarrow> string \<Rightarrow> error + string option" where
  "ls_getItem Unavailable k = Inl SecurityError"
| "ls_getItem (Available m) k = Inr (m k)"

text \<open>
  An element, as far as the script reads or writes it: its \<^verbatim>\<open>autolang\<close> attribute
  (\<^const>\<open>None\<close> when absent) and its inline \<^verbatim>\<open>style.display\<close>.
\<close>

record element =
  autolang :: "string option"
  display :: string

text \<open>One \<^verbatim>\<open>console.warn(message, argument)\<close>.\<close>

datatype console_entry = Warn string "string option"

text \<open>One entry of \<^verbatim>\<open>globalDict\<close>: \<^verbatim>\<open>{ node: node, dict: dict }\<close>.\<close>

record item =
  node :: nat
  dict :: dict

text \<open>
  The state the script runs in. Text nodes are handles (\<^typ>\<open>nat\<close>) into a store of
  node values; \<open>textNodes\<close> are the text nodes below \<^verbatim>\<open>document.body\<close> in the order
  the tree walker yields them; \<open>elements\<close> are the document's elements in document
  order; \<open>nodeValue_writes\<close> logs every assignment to a \<^verbatim>\<open>nodeValue\<close>. The last
  three fields are the module's own bindings.
\<close>

record state =
  location_search :: string
  navigator_language :: "string option"
  navigator_userLanguage :: "string option"
  localStorage :: storage
  textNodes :: "nat list"
  nodeValue :: "nat \<Rightarrow> string"
  nodeValue_writes :: "(nat \<times> string) list"
  elements :: "element list"
  console :: "console_entry list"
  isStorageEnabled :: bool
  currentLang :: string
  globalDict :: "item list"

text \<open>
  How a call ends: it returns, or an exception leaves it; what the call had written
  before stays written in both cases.
\<close>

datatype completion = Normal state | Abrupt error state

fun state_of :: "completion \<Rightarrow> state" where
  "state_of (Normal st) = st"
| "state_of (Abrupt e st) = st"

fun raised :: "completion \<Rightarrow> error option" where
  "raised (Normal st) = None"
| "raised (Abrupt e st) = Some e"

subsection \<open>The two selectors of \<^verbatim>\<open>applyLang\<close>\<close>

text \<open>
  Inside a double-quoted CSS string every character stands for itself but the quote, the
  backslash, the line breaks and NUL.
\<close>

definition css_plain :: "string \<Rightarrow> bool" where
  "css_plain v = list_all (\<lambda>c. c \<notin> set [CHR 0x22, CHR 0x5C, CHR 0x0A, CHR 0x0C, CHR 0x0D, CHR 0x00]) v"

text \<open>The text \<^verbatim>\<open>'*[autolang="' + v + '"]'\<close>.\<close>

definition autolang_selector :: "string \<Rightarrow> string" where
  "autolang_selector v = ''*[autolang='' @ [CHR 0x22] @ v @ [CHR 0x22] @ '']''"

text \<open>The value \<open>v\<close> when the selector text is \<^verbatim>\<open>*[autolang="v"]\<close> with a plain \<open>v\<close>.\<close>

definition selector_value :: "string \<Rightarrow> string option" where
  "selector_value sel =
     (let v = take (length sel - 14) (drop 12 sel)
      in if sel = autolang_selector v \<and> css_plain v then Some v else None)"

definition matching :: "(element \<Rightarrow> bool) \<Rightarrow> element list \<Rightarrow> nat list" where
  "matching P els = filter (\<lambda>i. P (els ! i)) [0..<length els]"

text \<open>
  \<^verbatim>\<open>document.querySelectorAll(sel)\<close>, as the indices of the matching elements.
  The selector engine belongs to the browser, not to the script. Its result is written
  out for the two shapes of selector the script means to build; on any other text
  (a language value with a quote in it, say) it is whatever the engine \<open>other\<close> answers,
  a list of elements, or \<^const>\<open>None\<close> when it rejects the text, which
  \<^verbatim>\<open>querySelectorAll\<close> reports as a \<^const>\<open>SyntaxError\<close>.
\<close>

type_synonym selector_engine = "string \<Rightarrow> element list \<Rightarrow> nat list option"

definition querySelectorAll :: "selector_engine \<Rightarrow> string \<Rightarrow> element list \<Rightarrow> error + nat list" where
  "querySelectorAll other sel els =
     (if sel = ''*[autolang]'' then Inr (matching (\<lambda>e. autolang e \<noteq> None) els)
      else case selector_value sel of
             Some v \<Rightarrow> Inr (matching (\<lambda>e. autolang e = Some v) els)
           | None \<Rightarrow>
               (case other sel els of None \<Rightarrow> Inl SyntaxError | Some idx \<Rightarrow> Inr idx))"

text \<open>\<^verbatim>\<open>list.forEach(function(el) { el.style.display = v; })\<close>.\<close>

definition set_display :: "string \<Rightarrow> nat list \<Rightarrow> element list \<Rightarrow> element list" where
  "set_display v idx els = fold (\<lambda>i es. es[i := (es ! i)\<lparr>display := v\<rparr>]) idx els"

text \<open>An engine that refuses every selector it is asked about.\<close>

definition strict_engine :: selector_engine where
  "strict_engine sel els = None"

section \<open>Module start: storage probe and initial language\<close>

text \<open>
  The immediately invoked function that initialises \<^verbatim>\<open>isStorageEnabled\<close>: its result
  and the storage it leaves.
\<close>

definition isStorageEnabled_probe :: "storage \<Rightarrow> bool \<times> storage" where
  "isStorageEnabled_probe ls =
     (case ls_setItem ls ''__test__'' ''__test__'' of
        Inl e \<Rightarrow> (False, ls)
      | Inr ls1 \<Rightarrow>
          (case ls_removeItem ls1 ''__test__'' of
             Inl e \<Rightarrow> (False, ls1)
           | Inr ls2 \<Rightarrow> (True, ls2)))"

text \<open>\<^verbatim>\<open>/[?&]lang=([a-z]{2})/\<close> anchored at the head of the string: its capture.\<close>

fun lang_param_at :: "string \<Rightarrow> string option" where
  "lang_param_at (q # l # a # n # g # eq # x # y # rest) =
     (if (q = CHR ''?'' \<or> q = CHR ''&'') \<and> [l, a, n, g, eq] = ''lang=''
         \<and> lower_az x \<and> lower_az y
      then Some [x, y] else None)"
| "lang_param_at _ = None"

definition getLangParam :: "state \<Rightarrow> string option" where
  "getLangParam st = first_match lang_param_at (location_search st)"

definition getLangFromStorage :: "state \<Rightarrow> error + string option" where
  "getLangFromStorage st =
     (if isStorageEnabled st then ls_getItem (localStorage st) LANG_STORAGE_KEY
      else Inr None)"

definition getBrowserLang :: "state \<Rightarrow> string" where
  "getBrowserLang st =
     take 2 (or_str (navigator_language st) (or_str (navigator_userLanguage st) DEFAULT_LANG))"

text \<open>
  The initialiser of \<^verbatim>\<open>currentLang\<close>, the spec's \<open>resolveInitial\<close>:
  \<^verbatim>\<open>getLangParam() || getLangFromStorage() || getBrowserLang()\<close>. The operands are
  evaluated from the left and only as far as needed.
\<close>

definition resolveInitial :: "state \<Rightarrow> error + string" where
  "resolveInitial st =
     (if truthy (getLangParam st) then Inr (or_str (getLangParam st) [])
      else case getLangFromStorage st of
             Inl e \<Rightarrow> Inl e
           | Inr s \<Rightarrow> if truthy s then Inr (or_str s []) else Inr (getBrowserLang st))"

text \<open>The top-level statements of the module, in their order.\<close>

definition load :: "state \<Rightarrow> completion" where
  "load st =
     (let (enabled, ls) = isStorageEnabled_probe (localStorage st);
          st1 = st\<lparr>localStorage := ls, isStorageEnabled := enabled\<rparr>
      in case resolveInitial st1 of
           Inl e \<Rightarrow> Abrupt e st1
         | Inr l \<Rightarrow> Normal (st1\<lparr>currentLang := l, globalDict := []\<rparr>))"

section \<open>Applying and switching the language\<close>

text \<open>\<^verbatim>\<open>item.dict[currentLang] || item.dict[DEFAULT_LANG] || ''\<close>.\<close>

definition newText :: "dict \<Rightarrow> string \<Rightarrow> string" where
  "newText d lang = or_str (dict_get d lang) (or_str (dict_get d DEFAULT_LANG) [])"

text \<open>The callback of \<^verbatim>\<open>globalDict.forEach\<close> in \<^verbatim>\<open>applyLang\<close>.\<close>

definition update_node :: "item \<Rightarrow> state \<Rightarrow> state" where
  "update_node it st =
     (let t = newText (dict it) (currentLang st)
      in if nodeValue st (node it) \<noteq> t
         then st\<lparr>nodeValue := (nodeValue st)(node it := t),
                 nodeValue_writes := nodeValue_writes st @ [(node it, t)]\<rparr>
         else st)"

definition applyLang :: "selector_engine \<Rightarrow> state \<Rightarrow> completion" where
  "applyLang other st =
     (let st1 = fold update_node (globalDict st) st
      in case querySelectorAll other ''*[autolang]'' (elements st1) of
           Inl e \<Rightarrow> Abrupt e st1
         | Inr hidden \<Rightarrow>
             (let st2 = st1\<lparr>elements := set_display ''none'' hidden (elements st1)\<rparr>
              in case querySelectorAll other (autolang_selector (currentLang st2)) (elements st2) of
                   Inl e \<Rightarrow> Abrupt e st2
                 | Inr shown \<Rightarrow>
                     Normal (st2\<lparr>elements := set_display [] shown (elements st2)\<rparr>)))"

text \<open>\<^verbatim>\<open>console.warn('Invalid language code provided to setLang:', lang)\<close>.\<close>

definition invalid_lang_warning :: "string option \<Rightarrow> console_entry" where
  "invalid_lang_warning lang = Warn ''Invalid language code provided to setLang:'' lang"

text \<open>
  \<^verbatim>\<open>setLang(lang)\<close> for an argument that is a string or \<^verbatim>\<open>null\<close>/\<^verbatim>\<open>undefined\<close>
  (\<^const>\<open>None\<close>). \<^verbatim>\<open>!lang\<close> holds for \<^verbatim>\<open>null\<close> and for the empty string.
\<close>

definition setLang :: "selector_engine \<Rightarrow> string option \<Rightarrow> state \<Rightarrow> completion" where
  "setLang other lang st =
     (case lang of
        None \<Rightarrow>
          Normal (st\<lparr>console := console st @ [invalid_lang_warning lang]\<rparr>)
      | Some l \<Rightarrow>
          if l = [] \<or> length l \<noteq> 2
          then Normal (st\<lparr>console := console st @ [invalid_lang_warning lang]\<rparr>)
          else
            (let st1 = st\<lparr>currentLang := l\<rparr>
             in if isStorageEnabled st1
                then (case ls_setItem (localStorage st1) LANG_STORAGE_KEY (currentLang st1) of
                        Inl e \<Rightarrow> Abrupt e st1
                      | Inr ls \<Rightarrow> applyLang other (st1\<lparr>localStorage := ls\<rparr>))
                else applyLang other st1))"

section \<open>Building the index\<close>

text \<open>
  \<^verbatim>\<open>getTextNodes(document.body)\<close>: the text nodes whose value the regular expression
  matches somewhere. The function sets \<^verbatim>\<open>lastIndex\<close> back to 0 after every test, so
  every test starts at the head of the node value.
\<close>

definition getTextNodes :: "state \<Rightarrow> nat list" where
  "getTextNodes st = filter (\<lambda>n. LANG_REG_EXP_test (nodeValue st n)) (textNodes st)"

text \<open>
  \<^verbatim>\<open>console.warn('Missing default language (' + DEFAULT_LANG + ') text. Using first
  available (' + firstKey + ') as fallback for:', nodeValue.substring(0, 50) + '...')\<close>.
\<close>

definition missing_default_warning :: "string \<Rightarrow> string \<Rightarrow> console_entry" where
  "missing_default_warning firstKey nodeValue0 =
     Warn (''Missing default language ('' @ DEFAULT_LANG
             @ '') text. Using first available ('' @ firstKey @ '') as fallback for:'')
          (Some (take 50 nodeValue0 @ ''...''))"

text \<open>
  The block under \<^verbatim>\<open>if (!hasDefault)\<close>: the dictionary with the default slot filled
  from the first key, and the warning. \<^verbatim>\<open>Object.keys(dict)[0]\<close> is \<^verbatim>\<open>undefined\<close>
  for an empty dictionary, and \<^verbatim>\<open>if (firstKey)\<close> fails for it and for the empty
  string. The first key was just read from the dictionary, so \<^verbatim>\<open>dict[firstKey]\<close> is
  a string (lemma \<open>first_key_present\<close> below); the \<^const>\<open>None\<close> branch stands for
  the \<^verbatim>\<open>undefined\<close> that cannot occur.
\<close>

definition fill_default :: "string \<Rightarrow> dict \<Rightarrow> dict \<times> console_entry list" where
  "fill_default nodeValue0 d =
     (case Object_keys d of
        [] \<Rightarrow> (d, [])
      | firstKey # _ \<Rightarrow>
          if firstKey \<noteq> []
          then (case dict_get d firstKey of
                  None \<Rightarrow> (d, [])
                | Some v \<Rightarrow>
                    (dict_set d DEFAULT_LANG v, [missing_default_warning firstKey nodeValue0]))
          else (d, []))"

text \<open>
  The callback of \<^verbatim>\<open>textNodes.forEach\<close> in the \<^verbatim>\<open>DOMContentLoaded\<close> handler, in
  two parts: what it computes from the node value (the dictionary to push and the
  warnings, or \<^const>\<open>None\<close> when \<^verbatim>\<open>Object.keys(dict).length > 0\<close> fails), and
  what it writes.
\<close>

definition index_entry :: "string \<Rightarrow> (dict \<times> console_entry list) option" where
  "index_entry nodeValue0 =
     (let (d, hasDefault) = parse_loop nodeValue0 ([], False)
      in if length (Object_keys d) > 0
         then Some (if \<not> hasDefault then fill_default nodeValue0 d else (d, []))
         else None)"

definition index_node :: "nat \<Rightarrow> state \<Rightarrow> state" where
  "index_node n st =
     (case index_entry (nodeValue st n) of
        None \<Rightarrow> st
      | Some (d, warnings) \<Rightarrow>
          st\<lparr>console := console st @ warnings,
             globalDict := globalDict st @ [\<lparr>node = n, dict = d\<rparr>]\<rparr>)"

text \<open>The spec's index build: the handler up to its call of \<^verbatim>\<open>applyLang\<close>.\<close>

definition buildIndex :: "state \<Rightarrow> state" where
  "buildIndex st = fold index_node (getTextNodes st) st"

definition DOMContentLoaded :: "selector_engine \<Rightarrow> state \<Rightarrow> completion" where
  "DOMContentLoaded other st = applyLang other (buildIndex st)"

section \<open>Notions the statements use\<close>

text \<open>
  The spec's visibility rule for a language \<open>lang\<close>: an element with the marker
  attribute is hidden, and then shown again when the attribute's value is \<open>lang\<close>; an
  element without the attribute is left alone.
\<close>

definition spec_visibility :: "string \<Rightarrow> element \<Rightarrow> element" where
  "spec_visibility lang e =
     (if autolang e = None then e
      else if autolang e = Some lang then e\<lparr>display := []\<rparr>
      else e\<lparr>display := ''none''\<rparr>)"

text \<open>The texts \<^verbatim>\<open>applyLang\<close> computes for the items, as pairs of node and text.\<close>

definition texts_for :: "string \<Rightarrow> item list \<Rightarrow> (nat \<times> string) list" where
  "texts_for lang items = map (\<lambda>it. (node it, newText (dict it) lang)) items"

text \<open>The spec's \<^verbatim>\<open>dict[lang] ?? dict[defaultLang] ?? ""\<close>.\<close>

definition spec_text :: "dict \<Rightarrow> string \<Rightarrow> string" where
  "spec_text d lang =
     (case dict_get d lang of
        Some t \<Rightarrow> t
      | None \<Rightarrow> (case dict_get d DEFAULT_LANG of Some t \<Rightarrow> t | None \<Rightarrow> []))"

text \<open>
  The entries and the warnings the index build adds for the nodes \<open>ns\<close>, whose values
  are \<open>nv\<close>.
\<close>

definition index_items :: "(nat \<Rightarrow> string) \<Rightarrow> nat list \<Rightarrow> item list" where
  "index_items nv ns =
     concat (map (\<lambda>n. case index_entry (nv n) of
                         None \<Rightarrow> [] | Some (d, w) \<Rightarrow> [\<lparr>node = n, dict = d\<rparr>]) ns)"

definition index_warnings :: "(nat \<Rightarrow> string) \<Rightarrow> nat list \<Rightarrow> console_entry list" where
  "index_warnings nv ns =
     concat (map (\<lambda>n. case index_entry (nv n) of None \<Rightarrow> [] | Some (d, w) \<Rightarrow> w) ns)"

text \<open>
  The page of the spec's end-to-end example, with two more text nodes and two more
  elements: a node with both languages, a node with English only, a node without tags.
\<close>

definition example_page :: state where
  "example_page =
     \<lparr>location_search = [],
      navigator_language = Some ''de-DE'',
      navigator_userLanguage = None,
      localStorage = Available Map.empty,
      textNodes = [10, 11, 12],
      nodeValue = (\<lambda>n. if n = 10 then ''[[ca]]Hola[[en]]Hello''
                        else if n = 11 then ''[[en]]Hello'' else ''plain''),
      nodeValue_writes = [],
      elements = [\<lparr>autolang = Some ''en'', display = []\<rparr>,
                  \<lparr>autolang = None, display = []\<rparr>,
                  \<lparr>autolang = Some ''ca'', display = []\<rparr>],
      console = [],
      isStorageEnabled = True,
      currentLang = ''ca'',
      globalDict = []\<rparr>"

text \<open>
  The spec's resolver, in its words: the first non-empty value of the request parameter,
  the persisted choice (when storage is available and holds a value), the language the
  environment reports (\<^verbatim>\<open>navigator.language\<close>, or \<^verbatim>\<open>navigator.userLanguage\<close> where the
  browser has only that) cut to two characters, and the compiled-in default.
\<close>

fun first_nonempty :: "string option list \<Rightarrow> string" where
  "first_nonempty [] = []"
| "first_nonempty (None # vs) = first_nonempty vs"
| "first_nonempty (Some s # vs) = (if s \<noteq> [] then s else first_nonempty vs)"

definition persisted_choice :: "state \<Rightarrow> string option" where
  "persisted_choice st =
     (case localStorage st of Unavailable \<Rightarrow> None | Available m \<Rightarrow> m LANG_STORAGE_KEY)"

definition environment_language :: "state \<Rightarrow> string option" where
  "environment_language st =
     (if truthy (navigator_language st) then navigator_language st
      else navigator_userLanguage st)"

definition spec_resolveInitial :: "state \<Rightarrow> string" where
  "spec_resolveInitial st =
     first_nonempty [getLangParam st, persisted_choice st,
                     map_option (take 2) (environment_language st), Some DEFAULT_LANG]"

section \<open>The parser: matches and dictionary\<close>

lemma parse_loop_exec_all:
  "parse_loop s (d, h) =
     (fold (\<lambda>(c, t) d. dict_set d c t) (exec_all s) d,
      h \<or> DEFAULT_LANG \<in> fst ` set (exec_all s))"
proof (induction s "(d, h)" arbitrary: d h rule: parse_loop.induct)
  case (1 s d h)
  show ?case
  proof (cases "LANG_REG_EXP_exec s")
    case None
    then show ?thesis by (simp add: parse_loop.simps exec_all.simps)
  next
    case (Some m)
    obtain c t rest where m: "m = (c, t, rest)" by (cases m) auto
    from 1 [OF Some [unfolded m] refl refl] Some m show ?thesis
      by (subst parse_loop.simps, subst (1 2) exec_all.simps) auto
  qed
qed

lemma map_of_dict_set: "map_of (dict_set d k v) = (map_of d)(k \<mapsto> v)"
  by (simp add: dict_set_def update_conv')

lemma keys_dict_set: "fst ` set (dict_set d k v) = insert k (fst ` set d)"
  using dom_update [of k v d] by (simp add: dict_set_def dom_map_of_conv_image_fst)

lemma map_of_fold_dict_set:
  "map_of (fold (\<lambda>(c, t) d. dict_set d c t) ms d) = map_of d ++ map_of (rev ms)"
proof (induction ms arbitrary: d)
  case Nil
  then show ?case by simp
next
  case (Cons m ms)
  obtain c t where m: "m = (c, t)" by (cases m)
  show ?case
    by (simp add: Cons m map_of_dict_set fun_eq_iff map_add_def split: option.splits)
qed

lemma dict_get_parse: "dict_get (parse s) c = map_of (rev (exec_all s)) c"
  by (simp add: parse_def dict_get_def parse_loop_exec_all map_of_fold_dict_set)

lemma keys_fold_dict_set:
  "fst ` set (fold (\<lambda>(c, t) d. dict_set d c t) ms d) = fst ` set d \<union> fst ` set ms"
proof (induction ms arbitrary: d)
  case Nil
  then show ?case by simp
next
  case (Cons m ms)
  obtain c t where m: "m = (c, t)" by (cases m)
  show ?case by (auto simp: Cons m keys_dict_set)
qed

lemma first_match_Some:
  "first_match at s = Some m \<Longrightarrow>
     \<exists>p q. s = p @ q \<and> at q = Some m \<and> (\<forall>k < length p. at (drop k s) = None)"
proof (induction s)
  case Nil
  then show ?case by simp
next
  case (Cons c cs)
  show ?case
  proof (cases "at (c # cs)")
    case (Some m')
    with Cons.prems have "at (c # cs) = Some m" by simp
    then have "c # cs = [] @ (c # cs) \<and> at (c # cs) = Some m
        \<and> (\<forall>k < length ([]::string). at (drop k (c # cs)) = None)" by simp
    then show ?thesis by blast
  next
    case None
    with Cons.prems have "first_match at cs = Some m" by simp
    from Cons.IH [OF this] obtain p q where pq: "cs = p @ q" "at q = Some m"
      "\<forall>k < length p. at (drop k cs) = None" by blast
    have "\<forall>k < length (c # p). at (drop k (c # cs)) = None"
    proof (intro allI impI)
      fix k assume "k < length (c # p)"
      then show "at (drop k (c # cs)) = None"
        using None pq(3) by (cases k) auto
    qed
    with pq(1,2) have "c # cs = (c # p) @ q \<and> at q = Some m
        \<and> (\<forall>k < length (c # p). at (drop k (c # cs)) = None)" by simp
    then show ?thesis by blast
  qed
qed

lemma first_match_None_here: "first_match at q = None \<Longrightarrow> at q = None"
  by (cases q) (auto split: option.splits)

lemma first_match_None:
  "first_match at (p @ q) = None \<Longrightarrow> at q = None"
  by (induction p) (auto split: option.splits dest: first_match_None_here)

lemma LANG_REG_EXP_at_sound:
  assumes "LANG_REG_EXP_at q = Some (c, t, rest)"
  shows "q = tag c @ t @ rest \<and> is_lang_code c \<and> t \<noteq> [] \<and> CHR ''['' \<notin> set t
         \<and> (rest = [] \<or> hd rest = CHR ''['')"
  using assms
proof (induction q rule: LANG_REG_EXP_at.induct)
  case (1 b1 b2 x y e1 e2 r)
  then have c: "c = [x, y]" "lower_az x" "lower_az y" "b1 = CHR ''[''" "b2 = CHR ''[''"
      "e1 = CHR '']''" "e2 = CHR '']''"
    and t: "t = takeWhile not_bracket r" "t \<noteq> []" and rest: "rest = dropWhile not_bracket r"
    by (auto split: if_splits)
  have "CHR ''['' \<notin> set t"
    using set_takeWhileD [of "CHR ''[''" not_bracket r] by (auto simp: t not_bracket_def)
  moreover have "rest = [] \<or> hd rest = CHR ''[''"
    using hd_dropWhile [of not_bracket r] by (auto simp: rest not_bracket_def)
  moreover have "t @ rest = r" by (simp add: t rest)
  ultimately show ?case using c t(2) by (auto simp: tag_def is_lang_code_def)
qed simp_all

lemma LANG_REG_EXP_at_complete:
  assumes "is_lang_code c" "t \<noteq> []" "CHR ''['' \<notin> set t" "rest = [] \<or> hd rest = CHR ''[''"
  shows "LANG_REG_EXP_at (tag c @ t @ rest) = Some (c, t, rest)"
proof -
  from assms(1) obtain x y where c: "c = [x, y]" "lower_az x" "lower_az y"
    by (cases c; cases "tl c") (auto simp: is_lang_code_def)
  have nb: "\<And>a. a \<in> set t \<Longrightarrow> not_bracket a"
    using assms(3) by (auto simp: not_bracket_def)
  have r: "takeWhile not_bracket rest = []" "dropWhile not_bracket rest = rest"
    using assms(4) by (cases rest; simp add: not_bracket_def)+
  have "takeWhile not_bracket (t @ rest) = t" "dropWhile not_bracket (t @ rest) = rest"
    using nb r by (simp_all add: takeWhile_append2 dropWhile_append2)
  then show ?thesis using c assms(2) by (simp add: tag_def)
qed

lemma dropWhile_before_bracket:
  "dropWhile not_bracket (r @ CHR ''['' # w) = dropWhile not_bracket r @ CHR ''['' # w"
  by (induction r) (simp_all add: not_bracket_def)

lemma LANG_REG_EXP_at_no_overlap:
  assumes "LANG_REG_EXP_at (r @ tag [x, y] @ w) = Some (c', t', rest)" and "r \<noteq> []"
  shows "\<exists>r'. rest = r' @ tag [x, y] @ w \<and> length r' < length r"
  using assms
proof (cases r rule: LANG_REG_EXP_at.cases)
  case (1 b1 b2 x' y' e1 e2 r0)
  with assms(1) have "rest = dropWhile not_bracket (r0 @ tag [x, y] @ w)"
    by (auto split: if_splits)
  then have "rest = dropWhile not_bracket r0 @ tag [x, y] @ w"
    by (simp add: tag_def dropWhile_before_bracket)
  moreover have "length (dropWhile not_bracket r0) < length r"
    using length_dropWhile_le [of not_bracket r0] 1 by simp
  ultimately show ?thesis by blast
qed (auto simp: tag_def lower_az_def)

lemma exec_all_sound:
  "(c, t) \<in> set (exec_all s) \<Longrightarrow>
     \<exists>pre post. s = pre @ tag c @ t @ post \<and> is_lang_code c \<and> t \<noteq> []
       \<and> CHR ''['' \<notin> set t \<and> (post = [] \<or> hd post = CHR ''['')"
proof (induction s rule: exec_all.induct)
  case (1 s)
  show ?case
  proof (cases "LANG_REG_EXP_exec s")
    case None
    with "1.prems" show ?thesis by (simp add: exec_all.simps)
  next
    case (Some m)
    obtain c' t' rest where m: "m = (c', t', rest)" by (cases m) auto
    from Some m obtain p q where pq: "s = p @ q" "LANG_REG_EXP_at q = Some (c', t', rest)"
      unfolding LANG_REG_EXP_exec_def by (blast dest: first_match_Some)
    note q = LANG_REG_EXP_at_sound [OF pq(2)]
    from "1.prems" Some m have "(c, t) = (c', t') \<or> (c, t) \<in> set (exec_all rest)"
      by (subst (asm) exec_all.simps) auto
    then show ?thesis
    proof
      assume "(c, t) = (c', t')"
      with q pq(1) have "s = p @ tag c @ t @ rest \<and> is_lang_code c \<and> t \<noteq> []
          \<and> CHR ''['' \<notin> set t \<and> (rest = [] \<or> hd rest = CHR ''['')" by simp
      then show ?thesis by blast
    next
      assume "(c, t) \<in> set (exec_all rest)"
      from "1.IH" [OF Some [unfolded m] refl refl this] obtain pre post where
        r: "rest = pre @ tag c @ t @ post" "is_lang_code c" "t \<noteq> []" "CHR ''['' \<notin> set t"
           "post = [] \<or> hd post = CHR ''[''" by blast
      from q pq(1) r(1) have "s = (p @ tag c' @ t' @ pre) @ tag c @ t @ post" by simp
      with r(2-) show ?thesis by blast
    qed
  qed
qed

lemma exec_all_complete:
  assumes "is_lang_code c" "t \<noteq> []" "CHR ''['' \<notin> set t" "post = [] \<or> hd post = CHR ''[''"
  shows "\<exists>ms. exec_all (pre @ tag c @ t @ post) = ms @ (c, t) # exec_all post"
proof (induction "length pre" arbitrary: pre rule: less_induct)
  case less
  let ?U = "tag c @ t @ post"
  from assms(1) obtain x y where c: "c = [x, y]"
    by (cases c; cases "tl c") (auto simp: is_lang_code_def)
  have U: "LANG_REG_EXP_at ?U = Some (c, t, post)"
    using assms by (rule LANG_REG_EXP_at_complete)
  have "LANG_REG_EXP_exec (pre @ ?U) \<noteq> None"
  proof
    assume "LANG_REG_EXP_exec (pre @ ?U) = None"
    then have "LANG_REG_EXP_at ?U = None"
      unfolding LANG_REG_EXP_exec_def by (rule first_match_None)
    with U show False by simp
  qed
  then obtain m where "LANG_REG_EXP_exec (pre @ ?U) = Some m" by blast
  then obtain c' t' rest where ex: "LANG_REG_EXP_exec (pre @ ?U) = Some (c', t', rest)"
    by (cases m) auto
  then obtain p q where pq: "pre @ ?U = p @ q" "LANG_REG_EXP_at q = Some (c', t', rest)"
    "\<forall>k < length p. LANG_REG_EXP_at (drop k (pre @ ?U)) = None"
    unfolding LANG_REG_EXP_exec_def by (blast dest: first_match_Some)
  have le: "length p \<le> length pre"
  proof (rule ccontr)
    assume "\<not> length p \<le> length pre"
    then have "length pre < length p" by simp
    with pq(3) have "LANG_REG_EXP_at (drop (length pre) (pre @ ?U)) = None" by blast
    moreover have "drop (length pre) (pre @ ?U) = ?U" by simp
    ultimately show False using U by simp
  qed
  have step: "exec_all (pre @ ?U) = (c', t') # exec_all rest"
    using ex by (subst exec_all.simps) simp
  show ?case
  proof (cases "length p = length pre")
    case True
    with pq(1) have "q = ?U" by (metis append_eq_append_conv)
    with pq(2) U have "c' = c" "t' = t" "rest = post" by simp_all
    with step have "exec_all (pre @ ?U) = [] @ (c, t) # exec_all post" by simp
    then show ?thesis by blast
  next
    case False
    with le have lt: "length p < length pre" by simp
    define r where "r = drop (length p) pre"
    have pre: "pre = p @ r"
      using pq(1) lt unfolding r_def
      by (metis append_eq_append_conv_if append_take_drop_id less_imp_le_nat)
    with pq(1) have q: "q = r @ ?U" by simp
    have "r \<noteq> []" using lt pre by auto
    with pq(2) q c obtain r' where r': "rest = r' @ ?U" "length r' < length r"
      using LANG_REG_EXP_at_no_overlap [of r x y "t @ post" c' t' rest] by auto
    have "length r' < length pre" using r'(2) pre by simp
    from less [OF this] obtain ms where "exec_all (r' @ ?U) = ms @ (c, t) # exec_all post"
      by blast
    with step r'(1) have "exec_all (pre @ ?U) = ((c', t') # ms) @ (c, t) # exec_all post"
      by simp
    then show ?thesis by blast
  qed
qed

lemma LANG_REG_EXP_at_shape:
  "LANG_REG_EXP_at s = Some m \<Longrightarrow>
     \<exists>x y w. s = CHR ''['' # CHR ''['' # x # y # CHR '']'' # CHR '']'' # w"
  by (cases s rule: LANG_REG_EXP_at.cases) (auto split: if_splits)

lemma LANG_REG_EXP_at_head:
  "a \<noteq> CHR ''['' \<Longrightarrow> LANG_REG_EXP_at (a # w) = None"
  using LANG_REG_EXP_at_shape [of "a # w"] by (cases "LANG_REG_EXP_at (a # w)") auto

lemma LANG_REG_EXP_at_second:
  "b \<noteq> CHR ''['' \<Longrightarrow> LANG_REG_EXP_at (a # b # w) = None"
  using LANG_REG_EXP_at_shape [of "a # b # w"] by (cases "LANG_REG_EXP_at (a # b # w)") auto

lemma LANG_REG_EXP_at_empty_content:
  assumes "is_lang_code c" "post = [] \<or> hd post = CHR ''[''"
  shows "LANG_REG_EXP_at (tag c @ post) = None"
proof -
  from assms(1) obtain x y where c: "c = [x, y]"
    by (cases c; cases "tl c") (auto simp: is_lang_code_def)
  from assms(2) have "takeWhile not_bracket post = []"
    by (cases post) (auto simp: not_bracket_def)
  then show ?thesis by (simp add: c tag_def)
qed

lemma LANG_REG_EXP_exec_here:
  "LANG_REG_EXP_at s = Some m \<Longrightarrow> LANG_REG_EXP_exec s = Some m"
  by (cases s) (simp_all add: LANG_REG_EXP_exec_def)

lemma LANG_REG_EXP_exec_skip_tag:
  assumes "is_lang_code c" "post = [] \<or> hd post = CHR ''[''"
  shows "LANG_REG_EXP_exec (tag c @ post) = LANG_REG_EXP_exec post"
proof -
  from assms(1) obtain x y where c: "c = [x, y]" "lower_az x" "lower_az y"
    by (cases c; cases "tl c") (auto simp: is_lang_code_def)
  have xy: "x \<noteq> CHR ''[''" "y \<noteq> CHR ''[''" using c(2,3) by (auto simp: lower_az_def)
  from assms(2) have 0: "takeWhile not_bracket post = []"
    by (cases post) (auto simp: not_bracket_def)
  have 5: "LANG_REG_EXP_at (CHR '']'' # post) = None"
    by (rule LANG_REG_EXP_at_head) simp
  show ?thesis
    unfolding LANG_REG_EXP_exec_def
    by (simp add: c(1) tag_def 0 5 xy LANG_REG_EXP_at_head LANG_REG_EXP_at_second)
qed

lemma exec_all_skip_tag:
  assumes "is_lang_code c" "post = [] \<or> hd post = CHR ''[''"
  shows "exec_all (tag c @ post) = exec_all post"
  by (subst (1 2) exec_all.simps) (simp add: LANG_REG_EXP_exec_skip_tag [OF assms])

lemma exec_all_Nil: "exec_all [] = []"
  by (subst exec_all.simps) (simp add: LANG_REG_EXP_exec_def)

lemma exec_all_here:
  assumes "is_lang_code c" "t \<noteq> []" "CHR ''['' \<notin> set t" "post = [] \<or> hd post = CHR ''[''"
  shows "exec_all (tag c @ t @ post) = (c, t) # exec_all post"
  using LANG_REG_EXP_exec_here [OF LANG_REG_EXP_at_complete [OF assms]]
  by (subst exec_all.simps) simp

lemma parse_exec_all: "parse s = fold (\<lambda>(c, t) d. dict_set d c t) (exec_all s) []"
  by (simp add: parse_def parse_loop_exec_all)

lemma parse_two_tags:
  assumes "is_lang_code x" "is_lang_code y" "x \<noteq> y" "A \<noteq> []" "B \<noteq> []"
    "CHR ''['' \<notin> set A" "CHR ''['' \<notin> set B"
  shows "parse (tag x @ A @ tag y @ B) = [(x, A), (y, B)]"
proof -
  have "exec_all (tag y @ B @ []) = (y, B) # exec_all []"
    using assms by (intro exec_all_here) simp_all
  moreover have "exec_all (tag x @ A @ (tag y @ B)) = (x, A) # exec_all (tag y @ B)"
    using assms by (intro exec_all_here) (simp_all add: tag_def)
  ultimately show ?thesis using assms(3)
    by (simp add: parse_exec_all exec_all_Nil dict_set_def)
qed

lemma parse_same_tag_twice:
  assumes "is_lang_code c" "B \<noteq> []" "CHR ''['' \<notin> set A" "CHR ''['' \<notin> set B"
  shows "parse (tag c @ A @ tag c @ B) = [(c, B)]"
proof -
  have B: "exec_all (tag c @ B @ []) = (c, B) # exec_all []"
    using assms by (intro exec_all_here) simp_all
  show ?thesis
  proof (cases "A = []")
    case True
    have "exec_all (tag c @ (tag c @ B)) = exec_all (tag c @ B)"
      using assms(1) by (intro exec_all_skip_tag) (simp_all add: tag_def)
    with B True show ?thesis by (simp add: parse_exec_all exec_all_Nil dict_set_def)
  next
    case False
    have "exec_all (tag c @ A @ (tag c @ B)) = (c, A) # exec_all (tag c @ B)"
      using assms False by (intro exec_all_here) (simp_all add: tag_def)
    with B show ?thesis by (simp add: parse_exec_all exec_all_Nil dict_set_def)
  qed
qed

lemma parse_entry_sound:
  assumes "dict_get (parse s) c = Some t"
  shows "\<exists>pre post. s = pre @ tag c @ t @ post \<and> is_lang_code c \<and> t \<noteq> []
       \<and> CHR ''['' \<notin> set t \<and> (post = [] \<or> hd post = CHR ''['')"
proof -
  from assms have "map_of (rev (exec_all s)) c = Some t" by (simp add: dict_get_parse)
  then have "(c, t) \<in> set (exec_all s)" by (auto dest: map_of_SomeD)
  then show ?thesis by (rule exec_all_sound)
qed

lemma parse_last_tag:
  assumes "is_lang_code c" "t \<noteq> []" "CHR ''['' \<notin> set t" "post = [] \<or> hd post = CHR ''[''"
    and later: "\<forall>p a q. post = p @ tag c @ a # q \<longrightarrow> a = CHR ''[''"
  shows "dict_get (parse (pre @ tag c @ t @ post)) c = Some t"
proof -
  from exec_all_complete [OF assms(1-4)] obtain ms where
    ms: "exec_all (pre @ tag c @ t @ post) = ms @ (c, t) # exec_all post" by blast
  have "map_of (rev (exec_all post)) c = None"
  proof (rule ccontr)
    assume "map_of (rev (exec_all post)) c \<noteq> None"
    then obtain t' where "(c, t') \<in> set (exec_all post)" by (auto dest: map_of_SomeD)
    from exec_all_sound [OF this] obtain p q where
      "post = p @ tag c @ t' @ q" "t' \<noteq> []" "CHR ''['' \<notin> set t'" by blast
    then obtain a w where "post = p @ tag c @ a # (w @ q)" "a \<noteq> CHR ''[''"
      by (cases t') auto
    with later show False by blast
  qed
  then show ?thesis by (simp add: dict_get_parse ms map_add_def)
qed

lemma parse_tag_has_entry:
  assumes "is_lang_code c" "t \<noteq> []" "CHR ''['' \<notin> set t" "post = [] \<or> hd post = CHR ''[''"
  shows "\<exists>t'. dict_get (parse (pre @ tag c @ t @ post)) c = Some t'"
proof -
  from exec_all_complete [OF assms] obtain ms where
    ms: "exec_all (pre @ tag c @ t @ post) = ms @ (c, t) # exec_all post" by blast
  have "c \<in> fst ` set (rev (exec_all (pre @ tag c @ t @ post)))" by (simp add: ms image_Un)
  then have "map_of (rev (exec_all (pre @ tag c @ t @ post))) c \<noteq> None"
    by (simp only: map_of_eq_None_iff not_not)
  then show ?thesis by (auto simp: dict_get_parse)
qed

lemma set_dict_set_subset: "set (dict_set d k v) \<subseteq> insert (k, v) (set d)"
  unfolding dict_set_def by (induction d) auto

lemma fold_dict_set_values:
  "\<forall>(k, v) \<in> set d. v \<noteq> [] \<Longrightarrow> \<forall>(k, v) \<in> set ms. v \<noteq> []
     \<Longrightarrow> \<forall>(k, v) \<in> set (fold (\<lambda>(c, t) d. dict_set d c t) ms d). v \<noteq> []"
proof (induction ms arbitrary: d)
  case Nil
  then show ?case by simp
next
  case (Cons m ms)
  obtain c t where m: "m = (c, t)" by (cases m)
  have "set (dict_set d c t) \<subseteq> insert (c, t) (set d)"
    by (rule set_dict_set_subset)
  with Cons.prems m have "\<forall>(k, v) \<in> set (dict_set d c t). v \<noteq> []" by auto
  with Cons show ?case by (simp add: m)
qed

lemma parse_values_nonempty: "(k, v) \<in> set (parse s) \<Longrightarrow> v \<noteq> []"
proof -
  have "\<forall>(k, v) \<in> set (exec_all s). v \<noteq> []"
    by (auto dest: exec_all_sound)
  then have "\<forall>(k, v) \<in> set (parse s). v \<noteq> []"
    unfolding parse_exec_all by (intro fold_dict_set_values) simp_all
  then show "(k, v) \<in> set (parse s) \<Longrightarrow> v \<noteq> []" by auto
qed

section \<open>Elements and selectors\<close>

lemma set_display_length: "length (set_display v idx els) = length els"
  unfolding set_display_def by (induction idx arbitrary: els) simp_all

lemma set_display_nth:
  "j < length els \<Longrightarrow>
     set_display v idx els ! j = (if j \<in> set idx then (els ! j)\<lparr>display := v\<rparr> else els ! j)"
  unfolding set_display_def
proof (induction idx arbitrary: els)
  case Nil
  then show ?case by simp
next
  case (Cons i idx)
  then show ?case by (cases "j = i") (simp_all add: nth_list_update)
qed

lemma set_display_matching:
  "set_display v (matching P els) els = map (\<lambda>e. if P e then e\<lparr>display := v\<rparr> else e) els"
  by (rule nth_equalityI) (auto simp: set_display_length set_display_nth matching_def)

lemma lower_az_plain:
  "lower_az c \<Longrightarrow> c \<notin> set [CHR 0x22, CHR 0x5C, CHR 0x0A, CHR 0x0C, CHR 0x0D, CHR 0x00]"
  by (auto simp: lower_az_def)

lemma lang_code_css_plain: "is_lang_code v \<Longrightarrow> css_plain v"
proof -
  assume "is_lang_code v"
  then have "list_all lower_az v" by (simp add: is_lang_code_def)
  then show "css_plain v"
    unfolding css_plain_def by (rule list.pred_mono_strong) (rule lower_az_plain)
qed

lemma selector_value_autolang:
  "css_plain v \<Longrightarrow> selector_value (autolang_selector v) = Some v"
  by (simp add: selector_value_def autolang_selector_def)

lemma querySelectorAll_marked:
  "querySelectorAll other ''*[autolang]'' els = Inr (matching (\<lambda>e. autolang e \<noteq> None) els)"
  by (simp add: querySelectorAll_def)

lemma querySelectorAll_value:
  "css_plain v \<Longrightarrow>
     querySelectorAll other (autolang_selector v) els = Inr (matching (\<lambda>e. autolang e = Some v) els)"
  by (simp add: querySelectorAll_def selector_value_autolang) (simp add: autolang_selector_def)

lemma two_passes:
  "set_display [] (matching (\<lambda>e. autolang e = Some lang)
       (set_display ''none'' (matching (\<lambda>e. autolang e \<noteq> None) els) els))
     (set_display ''none'' (matching (\<lambda>e. autolang e \<noteq> None) els) els)
   = map (spec_visibility lang) els"
  by (simp add: set_display_matching spec_visibility_def)

lemma spec_visibility_idem: "spec_visibility lang (spec_visibility lang e) = spec_visibility lang e"
  by (simp add: spec_visibility_def)

section \<open>The text pass of applyLang\<close>

lemma update_node_fields:
  "currentLang (update_node it st) = currentLang st"
  "globalDict (update_node it st) = globalDict st"
  "elements (update_node it st) = elements st"
  "localStorage (update_node it st) = localStorage st"
  "console (update_node it st) = console st"
  "isStorageEnabled (update_node it st) = isStorageEnabled st"
  by (simp_all add: update_node_def Let_def)

lemma fold_update_node:
  "fold update_node items st =
     st\<lparr>nodeValue := (\<lambda>n. case map_of (rev (texts_for (currentLang st) items)) n of
                              Some t \<Rightarrow> t | None \<Rightarrow> nodeValue st n),
        nodeValue_writes := nodeValue_writes (fold update_node items st)\<rparr>"
proof (induction items arbitrary: st)
  case Nil
  then show ?case by (simp add: texts_for_def)
next
  case (Cons it items)
  let ?st1 = "update_node it st"
  have 1: "currentLang ?st1 = currentLang st" by (simp add: update_node_fields)
  have nv: "nodeValue ?st1 = (nodeValue st)(node it := newText (dict it) (currentLang st))"
    by (auto simp: update_node_def Let_def)
  have rest: "?st1\<lparr>nodeValue := f, nodeValue_writes := w\<rparr> = st\<lparr>nodeValue := f, nodeValue_writes := w\<rparr>"
    for f w by (simp add: update_node_def Let_def)
  have "fold update_node (it # items) st = fold update_node items ?st1" by simp
  also have "\<dots> = ?st1\<lparr>nodeValue := (\<lambda>n. case map_of (rev (texts_for (currentLang st) items)) n of
                              Some t \<Rightarrow> t | None \<Rightarrow> nodeValue ?st1 n),
        nodeValue_writes := nodeValue_writes (fold update_node items ?st1)\<rparr>"
    using Cons [of ?st1] by (simp add: 1)
  also have "(\<lambda>n. case map_of (rev (texts_for (currentLang st) items)) n of
                              Some t \<Rightarrow> t | None \<Rightarrow> nodeValue ?st1 n)
      = (\<lambda>n. case map_of (rev (texts_for (currentLang st) (it # items))) n of
                              Some t \<Rightarrow> t | None \<Rightarrow> nodeValue st n)"
    by (auto simp: nv texts_for_def fun_eq_iff map_add_def split: option.splits)
  finally show ?case by (simp add: rest)
qed

lemma fold_update_node_writes:
  "distinct (map node items) \<Longrightarrow>
     nodeValue_writes (fold update_node items st) =
       nodeValue_writes st @
         filter (\<lambda>(n, t). nodeValue st n \<noteq> t) (texts_for (currentLang st) items)"
proof (induction items arbitrary: st)
  case Nil
  then show ?case by (simp add: texts_for_def)
next
  case (Cons it items)
  let ?st1 = "update_node it st"
  have 1: "currentLang ?st1 = currentLang st" by (simp add: update_node_fields)
  have nv: "nodeValue ?st1 n = nodeValue st n" if "n \<noteq> node it" for n
    using that by (simp add: update_node_def Let_def)
  have "node it \<notin> node ` set items" using Cons.prems by simp
  then have "node x \<noteq> node it" if "x \<in> set items" for x
    using that by (metis imageI)
  then have same: "\<forall>(n, t) \<in> set (texts_for (currentLang st) items). nodeValue ?st1 n = nodeValue st n"
    by (auto simp: texts_for_def nv)
  have "filter (\<lambda>(n, t). nodeValue ?st1 n \<noteq> t) (texts_for (currentLang st) items)
      = filter (\<lambda>(n, t). nodeValue st n \<noteq> t) (texts_for (currentLang st) items)"
    using same by (intro filter_cong) auto
  moreover have "nodeValue_writes ?st1 = nodeValue_writes st @
      filter (\<lambda>(n, t). nodeValue st n \<noteq> t) [(node it, newText (dict it) (currentLang st))]"
    by (simp add: update_node_def Let_def)
  ultimately show ?case
    using Cons.IH [of ?st1] Cons.prems by (simp add: 1 texts_for_def)
qed

lemma fold_update_node_fields:
  "currentLang (fold update_node items st) = currentLang st"
  "globalDict (fold update_node items st) = globalDict st"
  "elements (fold update_node items st) = elements st"
  "localStorage (fold update_node items st) = localStorage st"
  "console (fold update_node items st) = console st"
  "isStorageEnabled (fold update_node items st) = isStorageEnabled st"
  by (induction items arbitrary: st) (simp_all add: update_node_fields)

lemma applyLang_plain:
  assumes "css_plain (currentLang st)"
  shows "applyLang other st =
     Normal ((fold update_node (globalDict st) st)
               \<lparr>elements := map (spec_visibility (currentLang st)) (elements st)\<rparr>)"
  using assms
  by (simp add: applyLang_def Let_def querySelectorAll_marked querySelectorAll_value
      fold_update_node_fields two_passes del: not_None_eq)

lemma newText_spec_text:
  assumes "\<forall>(k, v) \<in> set d. v \<noteq> []"
  shows "newText d lang = spec_text d lang"
proof -
  have "v \<noteq> []" if "dict_get d k = Some v" for k v
    using that assms by (auto simp: dict_get_def dest: map_of_SomeD)
  then show ?thesis
    by (auto simp: newText_def spec_text_def or_str_def split: option.splits)
qed

section \<open>The index in closed form\<close>

lemma index_node_nodeValue: "nodeValue (index_node n st) = nodeValue st"
  by (simp add: index_node_def split: option.splits prod.splits)

lemma fold_index_node:
  "fold index_node ns st =
     st\<lparr>console := console st @ index_warnings (nodeValue st) ns,
        globalDict := globalDict st @ index_items (nodeValue st) ns\<rparr>"
proof (induction ns arbitrary: st)
  case Nil
  then show ?case by (simp add: index_items_def index_warnings_def)
next
  case (Cons n ns)
  show ?case
    by (simp add: Cons index_node_nodeValue)
       (simp add: index_node_def index_items_def index_warnings_def split: option.splits prod.splits)
qed

lemma index_items_iff:
  "it \<in> set (index_items nv ns) \<longleftrightarrow>
     node it \<in> set ns \<and> (\<exists>w. index_entry (nv (node it)) = Some (dict it, w))"
proof (induction ns)
  case Nil
  then show ?case by (simp add: index_items_def)
next
  case (Cons n ns)
  have "it \<in> set (index_items nv (n # ns)) \<longleftrightarrow>
      (\<exists>d w. index_entry (nv n) = Some (d, w) \<and> it = \<lparr>node = n, dict = d\<rparr>)
      \<or> it \<in> set (index_items nv ns)"
    by (cases "index_entry (nv n)") (auto simp: index_items_def)
  also have "(\<exists>d w. index_entry (nv n) = Some (d, w) \<and> it = \<lparr>node = n, dict = d\<rparr>)
      \<longleftrightarrow> node it = n \<and> (\<exists>w. index_entry (nv (node it)) = Some (dict it, w))"
    by (cases it) auto
  finally show ?case using Cons by (cases "index_entry (nv n)") (auto simp del: not_None_eq)
qed

lemma index_items_nodes:
  "map node (index_items nv ns) = filter (\<lambda>n. index_entry (nv n) \<noteq> None) ns"
  by (induction ns) (auto simp: index_items_def split: option.splits prod.splits)

lemma index_items_filter:
  "(\<And>n. P n \<longleftrightarrow> index_entry (nv n) \<noteq> None) \<Longrightarrow>
     index_items nv (filter P ns) = index_items nv ns"
  by (induction ns) (auto simp: index_items_def split: option.splits prod.splits)

lemma keys_parse: "fst ` set (parse s) = fst ` set (exec_all s)"
  by (simp add: parse_exec_all keys_fold_dict_set)

lemma parse_Nil_iff: "parse s = [] \<longleftrightarrow> LANG_REG_EXP_exec s = None"
proof -
  have "parse s = [] \<longleftrightarrow> fst ` set (parse s) = {}" by simp
  also have "\<dots> \<longleftrightarrow> exec_all s = []" by (simp add: keys_parse)
  also have "\<dots> \<longleftrightarrow> LANG_REG_EXP_exec s = None"
    by (subst exec_all.simps) (auto split: option.splits)
  finally show ?thesis .
qed

lemma has_default_iff:
  "DEFAULT_LANG \<in> fst ` set (exec_all s) \<longleftrightarrow> dict_get (parse s) DEFAULT_LANG \<noteq> None"
  by (simp add: dict_get_def map_of_eq_None_iff keys_parse)

lemma index_entry_eq:
  "index_entry v =
     (if parse v = [] then None
      else Some (if dict_get (parse v) DEFAULT_LANG \<noteq> None then (parse v, [])
                 else fill_default v (parse v)))"
  using has_default_iff [of v]
  by (simp add: index_entry_def parse_loop_exec_all parse_exec_all [symmetric] Object_keys_def)

lemma index_entry_test: "LANG_REG_EXP_test v \<longleftrightarrow> index_entry v \<noteq> None"
  by (simp add: LANG_REG_EXP_test_def index_entry_eq parse_Nil_iff)

lemma dict_set_append: "k \<notin> fst ` set d \<Longrightarrow> dict_set d k v = d @ [(k, v)]"
  unfolding dict_set_def by (induction d) auto

lemma parse_key_code: "(k, x) \<in> set (parse s) \<Longrightarrow> is_lang_code k"
proof -
  assume "(k, x) \<in> set (parse s)"
  then have "k \<in> fst ` set (exec_all s)" by (metis keys_parse fst_conv imageI)
  then show ?thesis by (auto dest: exec_all_sound)
qed

lemma fill_default_parse:
  assumes "parse v = (k, x) # rest" "dict_get (parse v) DEFAULT_LANG = None"
  shows "fill_default v (parse v) =
     (parse v @ [(DEFAULT_LANG, x)], [missing_default_warning k v])"
proof -
  have "is_lang_code k" using assms(1) parse_key_code [of k x v] by simp
  then have k: "k \<noteq> []" by (auto simp: is_lang_code_def)
  have "DEFAULT_LANG \<notin> fst ` set (parse v)"
    using assms(2) by (simp add: dict_get_def map_of_eq_None_iff)
  then have "dict_set (parse v) DEFAULT_LANG x = parse v @ [(DEFAULT_LANG, x)]"
    by (rule dict_set_append)
  then show ?thesis
    using k by (simp add: fill_default_def Object_keys_def dict_get_def assms(1))
qed

lemma first_key_present: "Object_keys d = k # ks \<Longrightarrow> dict_get d k \<noteq> None"
  by (cases d) (auto simp: Object_keys_def dict_get_def)

lemma buildIndex_eq:
  "buildIndex st =
     st\<lparr>console := console st @ index_warnings (nodeValue st) (getTextNodes st),
        globalDict := globalDict st @ index_items (nodeValue st) (textNodes st)\<rparr>"
proof -
  have "index_items (nodeValue st) (getTextNodes st) = index_items (nodeValue st) (textNodes st)"
    unfolding getTextNodes_def by (rule index_items_filter) (rule index_entry_test)
  then show ?thesis by (simp add: buildIndex_def fold_index_node)
qed

lemma index_entry_cases:
  assumes "index_entry v = Some (d, w)"
  shows "parse v \<noteq> [] \<and>
     ((dict_get (parse v) DEFAULT_LANG \<noteq> None \<and> d = parse v \<and> w = []) \<or>
      (dict_get (parse v) DEFAULT_LANG = None \<and>
       (\<exists>k x rest. parse v = (k, x) # rest \<and> d = parse v @ [(DEFAULT_LANG, x)]
          \<and> w = [missing_default_warning k v])))"
proof -
  from assms have ne: "parse v \<noteq> []" by (auto simp: index_entry_eq split: if_splits)
  show ?thesis
  proof (cases "dict_get (parse v) DEFAULT_LANG = None")
    case False
    with assms ne show ?thesis by (auto simp: index_entry_eq)
  next
    case True
    from ne obtain k x rest where p: "parse v = (k, x) # rest"
      by (cases "parse v") auto
    from assms ne True have "fill_default v (parse v) = (d, w)" by (simp add: index_entry_eq)
    with fill_default_parse [OF p True] ne True p show ?thesis by auto
  qed
qed

lemma index_entry_values:
  assumes "index_entry v = Some (d, w)"
  shows "\<forall>(k, x) \<in> set d. x \<noteq> []"
proof -
  have p: "\<forall>(k, x) \<in> set (parse v). x \<noteq> []" by (auto dest: parse_values_nonempty)
  from index_entry_cases [OF assms] show ?thesis
  proof (elim conjE disjE exE)
    assume "d = parse v"
    with p show ?thesis by simp
  next
    fix k x rest assume "parse v = (k, x) # rest" "d = parse v @ [(DEFAULT_LANG, x)]"
    with p show ?thesis by auto
  qed
qed

lemma index_entry_default:
  assumes "index_entry v = Some (d, w)"
  shows "d \<noteq> [] \<and> dict_get d DEFAULT_LANG \<noteq> None"
proof -
  from index_entry_cases [OF assms] show ?thesis
  proof (elim conjE disjE exE)
    assume "parse v \<noteq> []" "dict_get (parse v) DEFAULT_LANG \<noteq> None" "d = parse v"
    then show ?thesis by simp
  next
    fix k x rest assume "d = parse v @ [(DEFAULT_LANG, x)]"
    then show ?thesis by (simp add: dict_get_def)
  qed
qed

lemma applyLang_nodeValue:
  "nodeValue (state_of (applyLang other st)) = nodeValue (fold update_node (globalDict st) st)"
  by (simp add: applyLang_def Let_def split: sum.splits)

lemma map_of_functional:
  assumes "(k, v) \<in> set l" "\<forall>v'. (k, v') \<in> set l \<longrightarrow> v' = v"
  shows "map_of l k = Some v"
proof (cases "map_of l k")
  case None
  moreover from assms(1) have "k \<in> fst ` set l" by force
  ultimately show ?thesis by (simp add: map_of_eq_None_iff)
next
  case (Some v')
  then have "(k, v') \<in> set l" by (rule map_of_SomeD)
  with assms(2) Some show ?thesis by simp
qed

lemma fold_update_node_value:
  assumes "it \<in> set items" "\<forall>it' \<in> set items. node it' = node it \<longrightarrow> dict it' = dict it"
  shows "nodeValue (fold update_node items st) (node it) = newText (dict it) (currentLang st)"
proof -
  let ?l = "rev (texts_for (currentLang st) items)"
  have 1: "(node it, newText (dict it) (currentLang st)) \<in> set ?l"
    using assms(1) by (simp add: texts_for_def image_iff) blast
  have 2: "v' = newText (dict it) (currentLang st)" if "(node it, v') \<in> set ?l" for v'
  proof -
    from that obtain it' where it': "it' \<in> set items" "node it' = node it"
      "v' = newText (dict it') (currentLang st)"
      by (auto simp: texts_for_def)
    from assms(2) it'(1,2) have "dict it' = dict it" by blast
    with it'(3) show ?thesis by simp
  qed
  have "map_of ?l (node it) = Some (newText (dict it) (currentLang st))"
    using 1 2 by (intro map_of_functional) blast+
  then show ?thesis by (subst fold_update_node) simp
qed

lemma fold_update_node_other:
  assumes "n \<notin> node ` set items"
  shows "nodeValue (fold update_node items st) n = nodeValue st n"
proof -
  have "n \<notin> fst ` set (rev (texts_for (currentLang st) items))"
    using assms by (auto simp: texts_for_def)
  then have "map_of (rev (texts_for (currentLang st) items)) n = None"
    by (simp add: map_of_eq_None_iff)
  then show ?thesis by (subst fold_update_node) simp
qed

lemma index_items_functional:
  assumes "it \<in> set (index_items nv ns)" "it' \<in> set (index_items nv ns)" "node it' = node it"
  shows "dict it' = dict it"
  using assms by (auto simp: index_items_iff)

lemma index_items_distinct:
  "distinct ns \<Longrightarrow> distinct (map node (index_items nv ns))"
  by (simp add: index_items_nodes)

section \<open>Evaluating the model on given inputs\<close>

text \<open>The equations that evaluate the parser on a given string.\<close>

lemmas parse_eval =
  parse_def parse_loop.simps LANG_REG_EXP_exec_def lower_az_def not_bracket_def dict_set_def
  dict_get_def DEFAULT_LANG_def tag_def is_lang_code_def

lemmas index_eval =
  buildIndex_def getTextNodes_def LANG_REG_EXP_test_def index_node_def index_entry_def
  fill_default_def Object_keys_def

lemma example_index:
  "globalDict (buildIndex example_page) =
     [\<lparr>node = 10, dict = [(''ca'', ''Hola''), (''en'', ''Hello'')]\<rparr>,
      \<lparr>node = 11, dict = [(''en'', ''Hello''), (''ca'', ''Hello'')]\<rparr>]"
  by (simp add: example_page_def index_eval parse_eval)

section \<open>The index build and the text pass, continued\<close>

lemma buildIndex_items:
  "globalDict st = [] \<Longrightarrow> globalDict (buildIndex st) = index_items (nodeValue st) (textNodes st)"
  by (simp add: buildIndex_eq)

lemma buildIndex_console:
  "console (buildIndex st) = console st @ index_warnings (nodeValue st) (getTextNodes st)"
  by (simp add: buildIndex_eq)

lemma index_warnings_mem:
  "n \<in> set ns \<Longrightarrow> index_entry (nv n) = Some (d, w) \<Longrightarrow> set w \<subseteq> set (index_warnings nv ns)"
  by (induction ns) (auto simp: index_warnings_def)

lemma newText_fallback:
  assumes "dict_get p lang = None" "dict_get p DEFAULT_LANG = None" "x \<noteq> []"
  shows "newText (p @ [(DEFAULT_LANG, x)]) lang = x"
  using assms by (cases "lang = DEFAULT_LANG") (simp_all add: newText_def dict_get_def or_str_def map_add_def)

lemma buildIndex_values:
  assumes "globalDict st = []" "it \<in> set (globalDict (buildIndex st))"
  shows "\<forall>(k, v) \<in> set (dict it). v \<noteq> []"
proof -
  from assms obtain w where "index_entry (nodeValue st (node it)) = Some (dict it, w)"
    by (auto simp: buildIndex_items index_items_iff)
  then show ?thesis by (rule index_entry_values)
qed

lemma buildIndex_distinct:
  "globalDict st = [] \<Longrightarrow> distinct (textNodes st) \<Longrightarrow>
     distinct (map node (globalDict (buildIndex st)))"
  by (simp add: buildIndex_items index_items_distinct)

lemma fold_update_node_frame:
  "fold update_node items st =
     st\<lparr>nodeValue := nodeValue (fold update_node items st),
        nodeValue_writes := nodeValue_writes (fold update_node items st)\<rparr>"
proof -
  let ?F = "fold update_node items st"
  let ?G = "\<lambda>n. case map_of (rev (texts_for (currentLang st) items)) n of
                  Some t \<Rightarrow> t | None \<Rightarrow> nodeValue st n"
  have eq: "?F = st\<lparr>nodeValue := ?G, nodeValue_writes := nodeValue_writes ?F\<rparr>"
    by (rule fold_update_node)
  have "nodeValue ?F = ?G" by (subst eq) simp
  then show ?thesis by (subst eq) simp
qed

lemma fold_update_node_stable:
  assumes "currentLang st' = currentLang st"
    and "nodeValue st' = nodeValue (fold update_node items st)"
  shows "nodeValue (fold update_node items st') = nodeValue st'"
proof
  fix n
  let ?m = "map_of (rev (texts_for (currentLang st) items)) n"
  have 1: "nodeValue st' n = (case ?m of Some t \<Rightarrow> t | None \<Rightarrow> nodeValue st n)"
    unfolding assms(2) by (subst fold_update_node) simp
  have "nodeValue (fold update_node items st') n
      = (case ?m of Some t \<Rightarrow> t | None \<Rightarrow> nodeValue st' n)"
    by (subst fold_update_node) (simp add: assms(1))
  with 1 show "nodeValue (fold update_node items st') n = nodeValue st' n"
    by (cases ?m) simp_all
qed

lemma fold_update_node_no_writes:
  assumes "currentLang st' = currentLang st"
    and "nodeValue st' = nodeValue (fold update_node items st)"
    and "distinct (map node items)"
  shows "nodeValue_writes (fold update_node items st') = nodeValue_writes st'"
proof -
  have "nodeValue st' n = t" if "(n, t) \<in> set (texts_for (currentLang st) items)" for n t
  proof -
    from that obtain it where it: "it \<in> set items" "n = node it"
      "t = newText (dict it) (currentLang st)" by (auto simp: texts_for_def)
    have inj: "inj_on node (set items)" using assms(3) by (simp add: distinct_map)
    have "it' = it" if "it' \<in> set items" "node it' = node it" for it'
      using inj_onD [OF inj that(2) that(1) it(1)] .
    then have "\<forall>it' \<in> set items. node it' = node it \<longrightarrow> dict it' = dict it" by blast
    from fold_update_node_value [OF it(1) this, of st] it(2,3) show ?thesis
      by (simp add: assms(2))
  qed
  then have "filter (\<lambda>(n, t). nodeValue st' n \<noteq> t) (texts_for (currentLang st) items) = []"
    by (auto simp: filter_empty_conv)
  then show ?thesis
    using fold_update_node_writes [OF assms(3), of st'] by (simp add: assms(1))
qed

section \<open>Frames of applyLang and of the index build\<close>

lemma querySelectorAll_error: "querySelectorAll other sel els = Inl e \<Longrightarrow> e = SyntaxError"
  by (auto simp: querySelectorAll_def split: if_splits option.splits)

lemma applyLang_fields:
  "currentLang (state_of (applyLang other st)) = currentLang st"
  "globalDict (state_of (applyLang other st)) = globalDict st"
  "localStorage (state_of (applyLang other st)) = localStorage st"
  "isStorageEnabled (state_of (applyLang other st)) = isStorageEnabled st"
  "console (state_of (applyLang other st)) = console st"
  by (simp_all add: applyLang_def Let_def fold_update_node_fields split: sum.splits)

lemma applyLang_raised: "raised (applyLang other st) \<noteq> Some SecurityError"
  by (auto simp: applyLang_def Let_def split: sum.splits dest: querySelectorAll_error)

lemma buildIndex_fields:
  "currentLang (buildIndex st) = currentLang st"
  "localStorage (buildIndex st) = localStorage st"
  "isStorageEnabled (buildIndex st) = isStorageEnabled st"
  "nodeValue (buildIndex st) = nodeValue st"
  "elements (buildIndex st) = elements st"
  by (simp_all add: buildIndex_eq)

section \<open>The resolver and the module start\<close>

lemma probe_Unavailable: "isStorageEnabled_probe Unavailable = (False, Unavailable)"
  by (simp add: isStorageEnabled_probe_def)

lemma probe_Available:
  "isStorageEnabled_probe (Available m) = (True, Available (m(''__test__'' := None)))"
  by (simp add: isStorageEnabled_probe_def)

lemma getBrowserLang_spec:
  "getBrowserLang st = first_nonempty [map_option (take 2) (environment_language st), Some DEFAULT_LANG]"
  by (cases "navigator_language st"; cases "navigator_userLanguage st")
     (auto simp: getBrowserLang_def environment_language_def or_str_def truthy_def DEFAULT_LANG_def)

lemma resolveInitial_spec:
  assumes "isStorageEnabled st = fst (isStorageEnabled_probe (localStorage st))"
  shows "resolveInitial st = Inr (spec_resolveInitial st)"
proof (cases "localStorage st")
  case Unavailable
  with assms have "getLangFromStorage st = Inr None" "persisted_choice st = None"
    by (simp_all add: getLangFromStorage_def persisted_choice_def probe_Unavailable)
  then show ?thesis
    by (cases "getLangParam st")
       (simp_all add: resolveInitial_def spec_resolveInitial_def truthy_def or_str_def
          getBrowserLang_spec)
next
  case (Available m)
  with assms have "getLangFromStorage st = Inr (m LANG_STORAGE_KEY)"
    "persisted_choice st = m LANG_STORAGE_KEY"
    by (simp_all add: getLangFromStorage_def persisted_choice_def probe_Available)
  then show ?thesis
    by (cases "getLangParam st"; cases "m LANG_STORAGE_KEY")
       (simp_all add: resolveInitial_def spec_resolveInitial_def truthy_def or_str_def
          getBrowserLang_spec)
qed

lemma persisted_choice_probe:
  "persisted_choice (st\<lparr>localStorage := snd (isStorageEnabled_probe (localStorage st)),
                        isStorageEnabled := b\<rparr>) = persisted_choice st"
  by (cases "localStorage st")
     (simp_all add: persisted_choice_def probe_Unavailable probe_Available LANG_STORAGE_KEY_def)

lemma spec_resolveInitial_probe:
  "spec_resolveInitial (st\<lparr>localStorage := snd (isStorageEnabled_probe (localStorage st)),
                           isStorageEnabled := b\<rparr>) = spec_resolveInitial st"
  by (simp add: spec_resolveInitial_def getLangParam_def environment_language_def
      persisted_choice_probe)

lemma probe_idem:
  "fst (isStorageEnabled_probe (snd (isStorageEnabled_probe ls))) = fst (isStorageEnabled_probe ls)"
  by (cases ls) (simp_all add: probe_Unavailable probe_Available)

lemma load_eq:
  "load st = Normal (st\<lparr>localStorage := snd (isStorageEnabled_probe (localStorage st)),
                        isStorageEnabled := fst (isStorageEnabled_probe (localStorage st)),
                        currentLang := spec_resolveInitial st,
                        globalDict := []\<rparr>)"
proof -
  let ?st1 = "st\<lparr>localStorage := snd (isStorageEnabled_probe (localStorage st)),
                 isStorageEnabled := fst (isStorageEnabled_probe (localStorage st))\<rparr>"
  have "isStorageEnabled ?st1 = fst (isStorageEnabled_probe (localStorage ?st1))"
    by (simp add: probe_idem)
  then have "resolveInitial ?st1 = Inr (spec_resolveInitial ?st1)" by (rule resolveInitial_spec)
  then have "resolveInitial ?st1 = Inr (spec_resolveInitial st)"
    by (simp only: spec_resolveInitial_probe)
  then show ?thesis by (simp add: load_def Let_def split_beta)
qed

lemma lang_param_at_sound:
  "lang_param_at q = Some p \<Longrightarrow>
     is_lang_code p \<and> (\<exists>sep post. q = sep # ''lang='' @ p @ post \<and> (sep = CHR ''?'' \<or> sep = CHR ''&''))"
  by (cases q rule: lang_param_at.cases) (auto simp: is_lang_code_def split: if_splits)

lemma getLangParam_sound:
  assumes "getLangParam st = Some p"
  shows "is_lang_code p \<and> (\<exists>pre sep post. location_search st = pre @ sep # ''lang='' @ p @ post
           \<and> (sep = CHR ''?'' \<or> sep = CHR ''&''))"
proof -
  from assms obtain pre q where s: "location_search st = pre @ q" and q: "lang_param_at q = Some p"
    unfolding getLangParam_def by (blast dest: first_match_Some)
  from lang_param_at_sound [OF q] s show ?thesis by blast
qed

text \<open>The equations that evaluate the resolver on a given state.\<close>

lemmas resolve_eval =
  getLangParam_def persisted_choice_def spec_resolveInitial_def environment_language_def
  truthy_def LANG_STORAGE_KEY_def DEFAULT_LANG_def lower_az_def is_lang_code_def
  isStorageEnabled_probe_def

section \<open>setLang\<close>

lemma setLang_reject:
  assumes "lang = None \<or> (\<exists>l. lang = Some l \<and> length l \<noteq> 2)"
  shows "setLang other lang st = Normal (st\<lparr>console := console st @ [invalid_lang_warning lang]\<rparr>)"
  using assms by (auto simp: setLang_def)

lemma setLang_accept:
  assumes "length l = 2"
  shows "setLang other (Some l) st =
     (if isStorageEnabled st
      then (case ls_setItem (localStorage st) LANG_STORAGE_KEY l of
              Inl e \<Rightarrow> Abrupt e (st\<lparr>currentLang := l\<rparr>)
            | Inr ls \<Rightarrow> applyLang other (st\<lparr>currentLang := l, localStorage := ls\<rparr>))
      else applyLang other (st\<lparr>currentLang := l\<rparr>))"
  using assms by (auto simp: setLang_def Let_def split: sum.splits)

lemma parse_skip_tag:
  assumes "is_lang_code c" "post = [] \<or> hd post = CHR ''[''"
  shows "parse (tag c @ post) = parse post"
  by (simp add: parse_exec_all exec_all_skip_tag [OF assms])

lemma entry_from_other_tag:
  assumes "post = [] \<or> hd post = CHR ''[''"
    and "dict_get (parse (pre @ tag c @ post)) c = Some t"
  shows "\<exists>pre' post'. pre @ tag c @ post = pre' @ tag c @ t @ post' \<and> t \<noteq> []
           \<and> length pre' \<noteq> length pre"
proof -
  from parse_entry_sound [OF assms(2)] obtain pre' post' where
    s: "pre @ tag c @ post = pre' @ tag c @ t @ post'" and t: "t \<noteq> []" "CHR ''['' \<notin> set t"
    by blast
  have "length pre' \<noteq> length pre"
  proof
    assume "length pre' = length pre"
    with s have "post = t @ post'" by simp
    with t assms(1) show False by (cases t) auto
  qed
  with s t(1) show ?thesis by blast
qed

section \<open>The request parameter found, and every tagged node indexed\<close>

lemma lang_param_at_complete:
  assumes "is_lang_code p" "sep = CHR ''?'' \<or> sep = CHR ''&''"
  shows "lang_param_at (sep # ''lang='' @ p @ post) = Some p"
proof -
  from assms(1) obtain x y where "p = [x, y]" "lower_az x" "lower_az y"
    by (cases p; cases "tl p") (auto simp: is_lang_code_def)
  with assms(2) show ?thesis by auto
qed

lemma getLangParam_complete:
  assumes "location_search st = pre @ sep # ''lang='' @ p @ post"
    and "sep = CHR ''?'' \<or> sep = CHR ''&''" and "is_lang_code p"
  shows "\<exists>p'. getLangParam st = Some p'"
proof (cases "getLangParam st")
  case None
  then have "first_match lang_param_at (pre @ sep # ''lang='' @ p @ post) = None"
    by (simp add: getLangParam_def assms(1))
  then have "lang_param_at (sep # ''lang='' @ p @ post) = None" by (rule first_match_None)
  with lang_param_at_complete [OF assms(3,2), of post] show ?thesis by simp
next
  case (Some p')
  then show ?thesis by blast
qed

lemma getLangParam_leftmost:
  assumes s: "location_search st = pre @ sep # ''lang='' @ p @ post"
    and sep: "sep = CHR ''?'' \<or> sep = CHR ''&''" and p: "is_lang_code p"
    and first: "\<forall>pre' sep' p' post'.
        location_search st = pre' @ sep' # ''lang='' @ p' @ post'
        \<and> (sep' = CHR ''?'' \<or> sep' = CHR ''&'') \<and> is_lang_code p' \<longrightarrow> length pre \<le> length pre'"
  shows "getLangParam st = Some p"
proof -
  let ?U = "sep # ''lang='' @ p @ post"
  have U: "lang_param_at ?U = Some p" using p sep by (rule lang_param_at_complete)
  from getLangParam_complete [OF s sep p] obtain m where m: "getLangParam st = Some m" by blast
  then obtain p0 q where pq: "location_search st = p0 @ q" "lang_param_at q = Some m"
    "\<forall>k < length p0. lang_param_at (drop k (location_search st)) = None"
    unfolding getLangParam_def by (blast dest: first_match_Some)
  from lang_param_at_sound [OF pq(2)] obtain sep' post' where
    q: "q = sep' # ''lang='' @ m @ post'" "sep' = CHR ''?'' \<or> sep' = CHR ''&''" "is_lang_code m"
    by blast
  from first pq(1) q have le: "length pre \<le> length p0" by blast
  have "\<not> length pre < length p0"
  proof
    assume "length pre < length p0"
    with pq(3) have "lang_param_at (drop (length pre) (location_search st)) = None" by blast
    moreover have "drop (length pre) (location_search st) = ?U" by (simp add: s)
    ultimately show False using U by simp
  qed
  with le have "length pre = length p0" by simp
  with s pq(1) have "q = ?U" by (metis append_eq_append_conv)
  with pq(2) U have "m = p" by simp
  with m show ?thesis by simp
qed

lemma resolveInitial_param:
  assumes "getLangParam st = Some p"
  shows "resolveInitial st = Inr p \<and> spec_resolveInitial st = p"
proof -
  from getLangParam_sound [OF assms] have "p \<noteq> []" by (auto simp: is_lang_code_def)
  with assms show ?thesis
    by (simp add: resolveInitial_def spec_resolveInitial_def truthy_def or_str_def)
qed

text \<open>What the index build did for an item that is in the index.\<close>

lemma indexed_item_default:
  assumes "globalDict st = []" and "it \<in> set (globalDict (buildIndex st))"
  shows "dict it \<noteq> [] \<and> dict_get (dict it) DEFAULT_LANG \<noteq> None
     \<and> node it \<in> set (textNodes st) \<and> parse (nodeValue st (node it)) \<noteq> []
     \<and> (dict_get (parse (nodeValue st (node it))) DEFAULT_LANG \<noteq> None \<longrightarrow>
          dict it = parse (nodeValue st (node it)))
     \<and> (dict_get (parse (nodeValue st (node it))) DEFAULT_LANG = None \<longrightarrow>
          (\<exists>k x rest. parse (nodeValue st (node it)) = (k, x) # rest
             \<and> dict it = parse (nodeValue st (node it)) @ [(DEFAULT_LANG, x)]
             \<and> dict_get (dict it) DEFAULT_LANG = Some x
             \<and> missing_default_warning k (nodeValue st (node it)) \<in> set (console (buildIndex st))
             \<and> (\<forall>st' other. globalDict st' = globalDict (buildIndex st)
                    \<and> is_lang_code (currentLang st')
                    \<and> dict_get (parse (nodeValue st (node it))) (currentLang st') = None \<longrightarrow>
                    nodeValue (state_of (applyLang other st')) (node it) = x)))"
proof -
  let ?v = "nodeValue st (node it)"
  from assms have it: "it \<in> set (index_items (nodeValue st) (textNodes st))"
    by (simp add: buildIndex_items)
  then obtain w where n: "node it \<in> set (textNodes st)" and e: "index_entry ?v = Some (dict it, w)"
    by (auto simp: index_items_iff)
  note c = index_entry_cases [OF e] and d = index_entry_default [OF e]
  have test: "LANG_REG_EXP_test ?v" using e by (simp add: index_entry_test)
  have warn: "set w \<subseteq> set (console (buildIndex st))"
    using index_warnings_mem [of "node it" "getTextNodes st" "nodeValue st" "dict it" w] n e test
    by (auto simp: buildIndex_console getTextNodes_def)
  have fallback: "\<exists>k x rest. parse ?v = (k, x) # rest
             \<and> dict it = parse ?v @ [(DEFAULT_LANG, x)]
             \<and> dict_get (dict it) DEFAULT_LANG = Some x
             \<and> missing_default_warning k ?v \<in> set (console (buildIndex st))
             \<and> (\<forall>st' other. globalDict st' = globalDict (buildIndex st)
                    \<and> is_lang_code (currentLang st')
                    \<and> dict_get (parse ?v) (currentLang st') = None \<longrightarrow>
                    nodeValue (state_of (applyLang other st')) (node it) = x)"
    if no: "dict_get (parse ?v) DEFAULT_LANG = None"
  proof -
    from c no obtain k x rest where p: "parse ?v = (k, x) # rest"
      and dd: "dict it = parse ?v @ [(DEFAULT_LANG, x)]" and ww: "w = [missing_default_warning k ?v]"
      by auto
    have x: "x \<noteq> []" using parse_values_nonempty [of k x ?v] p by simp
    have get: "dict_get (dict it) DEFAULT_LANG = Some x"
      using no by (simp add: dd dict_get_def map_add_def)
    have "nodeValue (state_of (applyLang other st')) (node it) = x"
      if st': "globalDict st' = globalDict (buildIndex st)"
        and lang: "dict_get (parse ?v) (currentLang st') = None" for st' other
    proof -
      have items: "globalDict st' = index_items (nodeValue st) (textNodes st)"
        using st' assms(1) by (simp add: buildIndex_items)
      have "nodeValue (fold update_node (globalDict st') st') (node it)
          = newText (dict it) (currentLang st')"
        using it by (intro fold_update_node_value) (auto simp: items dest: index_items_functional)
      also have "\<dots> = x" unfolding dd using lang no x by (rule newText_fallback)
      finally show ?thesis by (simp add: applyLang_nodeValue)
    qed
    with p dd get ww warn show ?thesis by auto
  qed
  have "dict_get (parse ?v) DEFAULT_LANG \<noteq> None \<longrightarrow> dict it = parse ?v"
    using c by auto
  with d n c fallback show ?thesis by blast
qed

lemma index_entry_None_iff: "index_entry v = None \<longleftrightarrow> parse v = []"
  by (simp add: index_entry_eq)

lemma buildIndex_nodes:
  "globalDict st = [] \<Longrightarrow>
     map node (globalDict (buildIndex st)) = filter (\<lambda>n. parse (nodeValue st n) \<noteq> []) (textNodes st)"
  by (simp add: buildIndex_items index_items_nodes index_entry_None_iff)

lemma index_warnings_filter:
  "(\<And>n. P n \<longleftrightarrow> index_entry (nv n) \<noteq> None) \<Longrightarrow>
     index_warnings nv (filter P ns) = index_warnings nv ns"
proof (induction ns)
  case Nil
  then show ?case by simp
next
  case (Cons n ns)
  have step: "index_warnings nv (m # ms) =
      (case index_entry (nv m) of None \<Rightarrow> [] | Some (d, w) \<Rightarrow> w) @ index_warnings nv ms"
    for m ms by (simp add: index_warnings_def)
  show ?case
  proof (cases "index_entry (nv n)")
    case None
    with Cons.prems have "\<not> P n" by simp
    with None Cons show ?thesis by (simp add: step)
  next
    case (Some e)
    with Cons.prems have "P n" by simp
    with Cons show ?thesis by (simp add: step)
  qed
qed

lemma index_warnings_eq:
  "index_warnings nv ns =
     map (\<lambda>n. missing_default_warning (fst (hd (parse (nv n)))) (nv n))
       (filter (\<lambda>n. parse (nv n) \<noteq> [] \<and> dict_get (parse (nv n)) DEFAULT_LANG = None) ns)"
proof (induction ns)
  case Nil
  then show ?case by (simp add: index_warnings_def)
next
  case (Cons n ns)
  have step: "index_warnings nv (n # ns) =
      (case index_entry (nv n) of None \<Rightarrow> [] | Some (d, w) \<Rightarrow> w) @ index_warnings nv ns"
    by (simp add: index_warnings_def)
  show ?case
  proof (cases "parse (nv n) = []")
    case True
    then show ?thesis by (simp add: step Cons index_entry_eq)
  next
    case False
    then obtain k x rest where p: "parse (nv n) = (k, x) # rest" by (cases "parse (nv n)") auto
    show ?thesis
    proof (cases "dict_get (parse (nv n)) DEFAULT_LANG = None")
      case True
      from fill_default_parse [OF p True] False True show ?thesis
        by (simp add: step Cons index_entry_eq p)
    next
      case no: False
      with False show ?thesis by (simp add: step Cons index_entry_eq)
    qed
  qed
qed

lemma buildIndex_console_eq:
  "console (buildIndex st) = console st @
     map (\<lambda>n. missing_default_warning (fst (hd (parse (nodeValue st n)))) (nodeValue st n))
       (filter (\<lambda>n. parse (nodeValue st n) \<noteq> []
                  \<and> dict_get (parse (nodeValue st n)) DEFAULT_LANG = None) (textNodes st))"
proof -
  have "index_warnings (nodeValue st) (getTextNodes st) = index_warnings (nodeValue st) (textNodes st)"
    unfolding getTextNodes_def by (rule index_warnings_filter) (rule index_entry_test)
  then show ?thesis by (simp add: buildIndex_console index_warnings_eq)
qed

lemma tagged_node_indexed:
  assumes "globalDict st = []" "n \<in> set (textNodes st)" "parse (nodeValue st n) \<noteq> []"
  shows "\<exists>it \<in> set (globalDict (buildIndex st)). node it = n"
proof -
  from assms(2,3) have "n \<in> set (filter (\<lambda>n. parse (nodeValue st n) \<noteq> []) (textNodes st))"
    by simp
  then have "n \<in> set (map node (globalDict (buildIndex st)))"
    by (simp only: buildIndex_nodes [OF assms(1)])
  then show ?thesis by auto
qed

section \<open>The claims\<close>

subsection \<open>Claim C1\<close>

text \<open>
  Claim C1, as the code has it. The content of a tag ends at the next single
  \<^verbatim>\<open>[\<close> (or at the end of the string), not at the next \<^verbatim>\<open>[[\<close>, and a tag
  gets an entry only when at least one such character follows it. So: every entry
  \<open>c \<mapsto> t\<close> of \<open>parse s\<close> is a tag \<^verbatim>\<open>[[c]]\<close> of \<open>s\<close> with a two-letter lowercase
  code, followed by exactly \<open>t\<close>, which is non-empty, free of \<^verbatim>\<open>[\<close>, and ends at a
  \<^verbatim>\<open>[\<close> or at the end of \<open>s\<close>; conversely every such tag anywhere in a string gives
  its code an entry, which is its own content when no later tag of the same code is
  followed by a character other than \<^verbatim>\<open>[\<close>; and a blob \<^verbatim>\<open>[[xx]]A[[yy]]B\<close> with
  different codes and non-empty \<open>A\<close>, \<open>B\<close> free of \<^verbatim>\<open>[\<close> parses to exactly
  \<open>{xx: A, yy: B}\<close>, in this order of keys.
\<close>

theorem parse_tag_content:
  "(dict_get (parse s) c = Some t \<longrightarrow>
      (\<exists>pre post. s = pre @ tag c @ t @ post \<and> is_lang_code c \<and> t \<noteq> []
         \<and> CHR ''['' \<notin> set t \<and> (post = [] \<or> hd post = CHR ''['')))
   \<and> (is_lang_code c' \<and> t' \<noteq> [] \<and> CHR ''['' \<notin> set t'
        \<and> (post' = [] \<or> hd post' = CHR ''['') \<longrightarrow>
          (\<exists>v. dict_get (parse (pre' @ tag c' @ t' @ post')) c' = Some v)
          \<and> ((\<forall>p a q. post' = p @ tag c' @ a # q \<longrightarrow> a = CHR ''['') \<longrightarrow>
                dict_get (parse (pre' @ tag c' @ t' @ post')) c' = Some t'))
   \<and> (is_lang_code x \<and> is_lang_code y \<and> x \<noteq> y \<and> A \<noteq> [] \<and> B \<noteq> []
        \<and> CHR ''['' \<notin> set A \<and> CHR ''['' \<notin> set B \<longrightarrow>
          parse (tag x @ A @ tag y @ B) = [(x, A), (y, B)])"
proof (intro conjI impI)
  assume "dict_get (parse s) c = Some t"
  then show "\<exists>pre post. s = pre @ tag c @ t @ post \<and> is_lang_code c \<and> t \<noteq> []
         \<and> CHR ''['' \<notin> set t \<and> (post = [] \<or> hd post = CHR ''['')"
    by (rule parse_entry_sound)
next
  assume "is_lang_code c' \<and> t' \<noteq> [] \<and> CHR ''['' \<notin> set t'
        \<and> (post' = [] \<or> hd post' = CHR ''['')"
  then show "\<exists>v. dict_get (parse (pre' @ tag c' @ t' @ post')) c' = Some v"
    by (intro parse_tag_has_entry) simp_all
next
  assume "is_lang_code c' \<and> t' \<noteq> [] \<and> CHR ''['' \<notin> set t'
        \<and> (post' = [] \<or> hd post' = CHR ''['')"
    and "\<forall>p a q. post' = p @ tag c' @ a # q \<longrightarrow> a = CHR ''[''"
  then show "dict_get (parse (pre' @ tag c' @ t' @ post')) c' = Some t'"
    by (intro parse_last_tag) simp_all
next
  assume "is_lang_code x \<and> is_lang_code y \<and> x \<noteq> y \<and> A \<noteq> [] \<and> B \<noteq> []
        \<and> CHR ''['' \<notin> set A \<and> CHR ''['' \<notin> set B"
  then show "parse (tag x @ A @ tag y @ B) = [(x, A), (y, B)]"
    by (intro parse_two_tags) simp_all
qed

text \<open>The theorem at \<^verbatim>\<open>[[en]]a[b[[ca]]c\<close>, \<^verbatim>\<open>Hi [[en]]Hello\<close> and \<^verbatim>\<open>[[ca]]Hola[[en]]Hello\<close>.\<close>

theorem parse_tag_content_witness:
  "dict_get (parse ''[[en]]a[b[[ca]]c'') ''en'' = Some ''a''
   \<and> (\<exists>pre post. ''[[en]]a[b[[ca]]c'' = pre @ tag ''en'' @ ''a'' @ post \<and> is_lang_code ''en''
         \<and> (post = [] \<or> hd post = CHR ''[''))
   \<and> dict_get (parse (''Hi '' @ tag ''en'' @ ''Hello'' @ [])) ''en'' = Some ''Hello''
   \<and> parse (tag ''ca'' @ ''Hola'' @ tag ''en'' @ ''Hello'') = [(''ca'', ''Hola''), (''en'', ''Hello'')]"
proof -
  have h1: "dict_get (parse ''[[en]]a[b[[ca]]c'') ''en'' = Some ''a''"
    by (simp add: parse_eval)
  have h2: "is_lang_code ''en''" "is_lang_code ''ca''" by (simp_all add: parse_eval)
  from parse_tag_content [of "''[[en]]a[b[[ca]]c''" "''en''" "''a''" "''en''" "''Hello''" "[]"
      "''Hi ''" "''ca''" "''en''" "''Hola''" "''Hello''"] h1 h2
  show ?thesis by auto
qed

text \<open>
  Claim C1 as stated fails: in \<^verbatim>\<open>[[en]]a[b[[ca]]c\<close> the text up to the next
  \<^verbatim>\<open>[[\<close> is \<^verbatim>\<open>a[b\<close>, the entry is \<^verbatim>\<open>a\<close>; and \<^verbatim>\<open>[[en]][[ca]]B\<close>, of the
  form \<^verbatim>\<open>[[xx]]A[[yy]]B\<close> with an empty \<open>A\<close>, has no entry for \<^verbatim>\<open>en\<close>.
\<close>

theorem parse_content_stops_at_bracket:
  "parse ''[[en]]a[b[[ca]]c'' = [(''en'', ''a''), (''ca'', ''c'')]
   \<and> dict_get (parse ''[[en]]a[b[[ca]]c'') ''en'' \<noteq> Some ''a[b''
   \<and> parse (tag ''en'' @ [] @ tag ''ca'' @ ''B'') = [(''ca'', ''B'')]"
  by (simp add: parse_eval)

subsection \<open>Claim C2\<close>

text \<open>
  Claim C2. The initialiser of \<^verbatim>\<open>currentLang\<close> returns the first non-empty value of:
  the request parameter, the persisted choice when storage is available and holds a
  value, the environment's language cut to its first two characters, the compiled-in
  default (\<^const>\<open>spec_resolveInitial\<close>). This holds in every state whose
  \<^verbatim>\<open>isStorageEnabled\<close> is what the probe finds, and so for the module's own start
  (\<^const>\<open>load\<close>) in every environment, whose only other writes are the probe's and the
  empty index. The resolver is a function of the state alone and returns no state: it
  assigns nothing. With no parameter, no persisted value and environment language
  \<^verbatim>\<open>de-DE\<close> the result is \<^verbatim>\<open>de\<close>.

  The request parameter is pinned by the location alone. What \<^verbatim>\<open>getLangParam\<close>
  returns is a two-letter lowercase code that follows \<^verbatim>\<open>?lang=\<close> or \<^verbatim>\<open>&lang=\<close> in
  the location, and the resolver returns it. Whenever the location holds such a
  parameter anywhere, \<^verbatim>\<open>getLangParam\<close> finds one, and the resolver and the module's
  start return it whatever is persisted and whatever the environment reports; it is the
  leftmost one. Only a location with no such parameter gives \<^verbatim>\<open>null\<close>.
\<close>

theorem resolveInitial_priority:
  "(isStorageEnabled st = fst (isStorageEnabled_probe (localStorage st)) \<longrightarrow>
      resolveInitial st = Inr (spec_resolveInitial st))
   \<and> load st = Normal (st\<lparr>localStorage := snd (isStorageEnabled_probe (localStorage st)),
                           isStorageEnabled := fst (isStorageEnabled_probe (localStorage st)),
                           currentLang := spec_resolveInitial st,
                           globalDict := []\<rparr>)
   \<and> (getLangParam st = None \<and> persisted_choice st = None
        \<and> navigator_language st = Some ''de-DE'' \<longrightarrow> spec_resolveInitial st = ''de'')
   \<and> (\<forall>p. getLangParam st = Some p \<longrightarrow>
          is_lang_code p \<and> spec_resolveInitial st = p \<and> resolveInitial st = Inr p
          \<and> (\<exists>pre sep post. location_search st = pre @ sep # ''lang='' @ p @ post
                \<and> (sep = CHR ''?'' \<or> sep = CHR ''&'')))
   \<and> (\<forall>pre sep p post.
          location_search st = pre @ sep # ''lang='' @ p @ post
          \<and> (sep = CHR ''?'' \<or> sep = CHR ''&'') \<and> is_lang_code p \<longrightarrow>
            (\<exists>p'. getLangParam st = Some p' \<and> is_lang_code p' \<and> resolveInitial st = Inr p'
                  \<and> currentLang (state_of (load st)) = p')
            \<and> ((\<forall>pre' sep' p' post'.
                    location_search st = pre' @ sep' # ''lang='' @ p' @ post'
                    \<and> (sep' = CHR ''?'' \<or> sep' = CHR ''&'') \<and> is_lang_code p' \<longrightarrow>
                      length pre \<le> length pre') \<longrightarrow>
                  getLangParam st = Some p \<and> resolveInitial st = Inr p
                  \<and> currentLang (state_of (load st)) = p))
   \<and> (getLangParam st = None \<longrightarrow>
        \<not> (\<exists>pre sep p post. location_search st = pre @ sep # ''lang='' @ p @ post
               \<and> (sep = CHR ''?'' \<or> sep = CHR ''&'') \<and> is_lang_code p))"
proof (intro conjI impI allI)
  assume "isStorageEnabled st = fst (isStorageEnabled_probe (localStorage st))"
  then show "resolveInitial st = Inr (spec_resolveInitial st)" by (rule resolveInitial_spec)
next
  show "load st = Normal (st\<lparr>localStorage := snd (isStorageEnabled_probe (localStorage st)),
                           isStorageEnabled := fst (isStorageEnabled_probe (localStorage st)),
                           currentLang := spec_resolveInitial st,
                           globalDict := []\<rparr>)"
    by (rule load_eq)
next
  assume "getLangParam st = None \<and> persisted_choice st = None
        \<and> navigator_language st = Some ''de-DE''"
  then show "spec_resolveInitial st = ''de''"
    by (simp add: spec_resolveInitial_def environment_language_def truthy_def)
next
  fix p assume p: "getLangParam st = Some p"
  from getLangParam_sound [OF p] show "is_lang_code p" by blast
  from resolveInitial_param [OF p] show "spec_resolveInitial st = p" by blast
  from resolveInitial_param [OF p] show "resolveInitial st = Inr p" by blast
  from getLangParam_sound [OF p]
  show "\<exists>pre sep post. location_search st = pre @ sep # ''lang='' @ p @ post
                \<and> (sep = CHR ''?'' \<or> sep = CHR ''&'')" by blast
next
  fix pre sep p post
  assume a: "location_search st = pre @ sep # ''lang='' @ p @ post
          \<and> (sep = CHR ''?'' \<or> sep = CHR ''&'') \<and> is_lang_code p"
  then obtain p' where p': "getLangParam st = Some p'"
    using getLangParam_complete [of st pre sep p post] by blast
  from getLangParam_sound [OF p'] have "is_lang_code p'" by blast
  moreover from resolveInitial_param [OF p'] have "resolveInitial st = Inr p'"
    "currentLang (state_of (load st)) = p'" by (simp_all add: load_eq)
  ultimately show "\<exists>p'. getLangParam st = Some p' \<and> is_lang_code p' \<and> resolveInitial st = Inr p'
                  \<and> currentLang (state_of (load st)) = p'"
    using p' by blast
next
  fix pre sep p post
  assume a: "location_search st = pre @ sep # ''lang='' @ p @ post
          \<and> (sep = CHR ''?'' \<or> sep = CHR ''&'') \<and> is_lang_code p"
    and first: "\<forall>pre' sep' p' post'.
                    location_search st = pre' @ sep' # ''lang='' @ p' @ post'
                    \<and> (sep' = CHR ''?'' \<or> sep' = CHR ''&'') \<and> is_lang_code p' \<longrightarrow>
                      length pre \<le> length pre'"
  from a first have p: "getLangParam st = Some p"
    by (intro getLangParam_leftmost [of st pre sep p post]) simp_all
  then show "getLangParam st = Some p" .
  from resolveInitial_param [OF p] show "resolveInitial st = Inr p" by blast
  from resolveInitial_param [OF p] show "currentLang (state_of (load st)) = p"
    by (simp add: load_eq)
next
  assume n: "getLangParam st = None"
  show "\<not> (\<exists>pre sep p post. location_search st = pre @ sep # ''lang='' @ p @ post
               \<and> (sep = CHR ''?'' \<or> sep = CHR ''&'') \<and> is_lang_code p)"
  proof
    assume "\<exists>pre sep p post. location_search st = pre @ sep # ''lang='' @ p @ post
               \<and> (sep = CHR ''?'' \<or> sep = CHR ''&'') \<and> is_lang_code p"
    then obtain pre sep p post where "location_search st = pre @ sep # ''lang='' @ p @ post"
      "sep = CHR ''?'' \<or> sep = CHR ''&''" "is_lang_code p" by blast
    from getLangParam_complete [OF this] n show False by simp
  qed
qed

text \<open>
  The theorem on the sample page (no parameter, empty storage, \<^verbatim>\<open>de-DE\<close>), on the
  same page with \<^verbatim>\<open>?a=1&lang=es\<close> and a persisted \<^verbatim>\<open>fr\<close>, and with
  \<^verbatim>\<open>?lang=es&a=1\<close> and a persisted \<^verbatim>\<open>fr\<close>.
\<close>

theorem resolveInitial_priority_witness:
  "isStorageEnabled example_page = fst (isStorageEnabled_probe (localStorage example_page))
   \<and> getLangParam example_page = None \<and> persisted_choice example_page = None
   \<and> navigator_language example_page = Some ''de-DE''
   \<and> resolveInitial example_page = Inr ''de''
   \<and> currentLang (state_of (load example_page)) = ''de''
   \<and> getLangParam (example_page\<lparr>location_search := ''?a=1&lang=es'',
                                  localStorage := Available [''lang'' \<mapsto> ''fr'']\<rparr>) = Some ''es''
   \<and> currentLang (state_of (load (example_page\<lparr>location_search := ''?a=1&lang=es'',
                                  localStorage := Available [''lang'' \<mapsto> ''fr'']\<rparr>))) = ''es''
   \<and> is_lang_code ''es''
   \<and> resolveInitial (example_page\<lparr>location_search := [] @ CHR ''?'' # ''lang='' @ ''es'' @ ''&a=1'',
                                  localStorage := Available [''lang'' \<mapsto> ''fr'']\<rparr>) = Inr ''es''"
proof -
  let ?st2 = "example_page\<lparr>location_search := ''?a=1&lang=es'',
                           localStorage := Available [''lang'' \<mapsto> ''fr'']\<rparr>"
  let ?st3 = "example_page\<lparr>location_search := [] @ CHR ''?'' # ''lang='' @ ''es'' @ ''&a=1'',
                           localStorage := Available [''lang'' \<mapsto> ''fr'']\<rparr>"
  have h: "isStorageEnabled example_page = fst (isStorageEnabled_probe (localStorage example_page))"
    "getLangParam example_page = None" "persisted_choice example_page = None"
    "navigator_language example_page = Some ''de-DE''"
    by (simp_all add: example_page_def resolve_eval)
  have p: "getLangParam ?st2 = Some ''es''" by (simp add: resolve_eval)
  have c: "is_lang_code ''es''" by (simp add: is_lang_code_def lower_az_def)
  from resolveInitial_priority [of example_page] h
  have "resolveInitial example_page = Inr ''de''" "currentLang (state_of (load example_page)) = ''de''"
    by simp_all
  moreover from resolveInitial_priority [of ?st2] p
  have "currentLang (state_of (load ?st2)) = ''es''" by simp
  moreover have "resolveInitial ?st3 = Inr ''es''"
  proof -
    have s: "location_search ?st3 = [] @ CHR ''?'' # ''lang='' @ ''es'' @ ''&a=1''" by simp
    have f: "\<forall>pre' sep' p' post'.
        location_search ?st3 = pre' @ sep' # ''lang='' @ p' @ post'
        \<and> (sep' = CHR ''?'' \<or> sep' = CHR ''&'') \<and> is_lang_code p' \<longrightarrow>
          length ([]::string) \<le> length pre'" by simp
    from resolveInitial_priority [of ?st3] have
      "\<forall>pre sep p post.
          location_search ?st3 = pre @ sep # ''lang='' @ p @ post
          \<and> (sep = CHR ''?'' \<or> sep = CHR ''&'') \<and> is_lang_code p \<longrightarrow>
            ((\<forall>pre' sep' p' post'.
                    location_search ?st3 = pre' @ sep' # ''lang='' @ p' @ post'
                    \<and> (sep' = CHR ''?'' \<or> sep' = CHR ''&'') \<and> is_lang_code p' \<longrightarrow>
                      length pre \<le> length pre') \<longrightarrow>
                  resolveInitial ?st3 = Inr p)"
      by blast
    from this [rule_format, of "[]" "CHR ''?''" "''es''" "''&a=1''"] s c f show ?thesis by blast
  qed
  ultimately show ?thesis using h p c by simp
qed

subsection \<open>Claim C3\<close>

text \<open>
  Claim C3. Let the index be the one built from a page whose text nodes are pairwise
  different, and let the current language be a language code. Then \<^verbatim>\<open>applyLang\<close>
  returns normally; every indexed node then holds \<open>dict[lang]\<close> if present, otherwise
  \<open>dict[DEFAULT_LANG]\<close>, otherwise the empty string (\<^const>\<open>spec_text\<close>); no other node
  value changes; the node values assigned in the call are exactly those of the indexed
  nodes whose text differed, in index order; every element with the \<^verbatim>\<open>autolang\<close>
  attribute ends with \<^verbatim>\<open>display = 'none'\<close> unless its attribute equals the language,
  in which case it ends with \<^verbatim>\<open>display = ''\<close>, and elements without the attribute
  are untouched (\<^const>\<open>spec_visibility\<close>); language, index, storage and console stay as
  they were.
\<close>

theorem applyLang_text_and_visibility:
  assumes "globalDict st0 = []" and "distinct (textNodes st0)"
    and "globalDict st = globalDict (buildIndex st0)"
    and "is_lang_code (currentLang st)"
  shows "\<exists>st'. applyLang other st = Normal st'
     \<and> (\<forall>it \<in> set (globalDict st). nodeValue st' (node it) = spec_text (dict it) (currentLang st))
     \<and> (\<forall>n. n \<notin> node ` set (globalDict st) \<longrightarrow> nodeValue st' n = nodeValue st n)
     \<and> nodeValue_writes st' = nodeValue_writes st @
           filter (\<lambda>(n, t). nodeValue st n \<noteq> t)
             (map (\<lambda>it. (node it, spec_text (dict it) (currentLang st))) (globalDict st))
     \<and> elements st' = map (spec_visibility (currentLang st)) (elements st)
     \<and> currentLang st' = currentLang st \<and> globalDict st' = globalDict st
     \<and> localStorage st' = localStorage st \<and> console st' = console st"
proof -
  let ?items = "globalDict st"
  let ?st1 = "fold update_node ?items st"
  let ?st' = "?st1\<lparr>elements := map (spec_visibility (currentLang st)) (elements st)\<rparr>"
  have dist: "distinct (map node ?items)"
    using assms(1-3) by (simp add: buildIndex_distinct)
  have nt: "newText (dict it) lang = spec_text (dict it) lang" if "it \<in> set ?items" for it lang
    using that assms(1,3) by (intro newText_spec_text buildIndex_values [of st0]) simp_all
  have run: "applyLang other st = Normal ?st'"
    using assms(4) by (intro applyLang_plain lang_code_css_plain)
  have inj: "inj_on node (set ?items)" using dist by (simp add: distinct_map)
  have "nodeValue ?st' (node it) = spec_text (dict it) (currentLang st)" if "it \<in> set ?items" for it
  proof -
    have "it' = it" if "it' \<in> set ?items" "node it' = node it" for it'
      using inj_onD [OF inj that(2) that(1) \<open>it \<in> set ?items\<close>] .
    then have "\<forall>it' \<in> set ?items. node it' = node it \<longrightarrow> dict it' = dict it" by blast
    from fold_update_node_value [OF that this, of st] show ?thesis by (simp add: nt [OF that])
  qed
  moreover have "nodeValue ?st' n = nodeValue st n" if "n \<notin> node ` set ?items" for n
    using that by (simp add: fold_update_node_other)
  moreover have "texts_for (currentLang st) ?items
      = map (\<lambda>it. (node it, spec_text (dict it) (currentLang st))) ?items"
    unfolding texts_for_def using nt by (intro map_cong) simp_all
  then have "nodeValue_writes ?st' = nodeValue_writes st @
           filter (\<lambda>(n, t). nodeValue st n \<noteq> t)
             (map (\<lambda>it. (node it, spec_text (dict it) (currentLang st))) ?items)"
    using fold_update_node_writes [OF dist, of st] by simp
  ultimately show ?thesis using run by (simp add: fold_update_node_fields)
qed

text \<open>The theorem on the sample page, index built, language \<^verbatim>\<open>en\<close>.\<close>

theorem applyLang_text_and_visibility_witness:
  "globalDict example_page = [] \<and> distinct (textNodes example_page)
   \<and> is_lang_code ''en''
   \<and> nodeValue (state_of (applyLang strict_engine ((buildIndex example_page)\<lparr>currentLang := ''en''\<rparr>))) 10
        = ''Hello''
   \<and> nodeValue (state_of (applyLang strict_engine ((buildIndex example_page)\<lparr>currentLang := ''en''\<rparr>))) 12
        = ''plain''
   \<and> nodeValue_writes (state_of (applyLang strict_engine ((buildIndex example_page)\<lparr>currentLang := ''en''\<rparr>)))
        = [(10, ''Hello''), (11, ''Hello'')]
   \<and> elements (state_of (applyLang strict_engine ((buildIndex example_page)\<lparr>currentLang := ''en''\<rparr>)))
        = [\<lparr>autolang = Some ''en'', display = []\<rparr>,
           \<lparr>autolang = None, display = []\<rparr>,
           \<lparr>autolang = Some ''ca'', display = ''none''\<rparr>]"
proof -
  let ?st = "(buildIndex example_page)\<lparr>currentLang := ''en''\<rparr>"
  have h1: "globalDict example_page = []" and h2: "distinct (textNodes example_page)"
    by (simp_all add: example_page_def)
  have h3: "globalDict ?st = globalDict (buildIndex example_page)" by simp
  have h4: "is_lang_code (currentLang ?st)" by (simp add: is_lang_code_def lower_az_def)
  have nv: "nodeValue (buildIndex example_page) 10 = ''[[ca]]Hola[[en]]Hello''"
    "nodeValue (buildIndex example_page) 11 = ''[[en]]Hello''"
    "nodeValue (buildIndex example_page) 12 = ''plain''"
    "nodeValue_writes (buildIndex example_page) = []"
    "elements (buildIndex example_page) = [\<lparr>autolang = Some ''en'', display = []\<rparr>,
           \<lparr>autolang = None, display = []\<rparr>,
           \<lparr>autolang = Some ''ca'', display = []\<rparr>]"
    by (simp_all add: buildIndex_eq example_page_def)
  from applyLang_text_and_visibility [OF h1 h2 h3 h4, of strict_engine]
  obtain st' where st': "applyLang strict_engine ?st = Normal st'"
    and t: "\<forall>it \<in> set (globalDict ?st). nodeValue st' (node it) = spec_text (dict it) (currentLang ?st)"
    and o: "\<forall>n. n \<notin> node ` set (globalDict ?st) \<longrightarrow> nodeValue st' n = nodeValue ?st n"
    and w: "nodeValue_writes st' = nodeValue_writes ?st @
           filter (\<lambda>(n, t). nodeValue ?st n \<noteq> t)
             (map (\<lambda>it. (node it, spec_text (dict it) (currentLang ?st))) (globalDict ?st))"
    and e: "elements st' = map (spec_visibility (currentLang ?st)) (elements ?st)"
    by (elim exE conjE) (rule that)
  from t have "nodeValue st' 10 = ''Hello''"
    by (simp add: example_index spec_text_def dict_get_def)
  moreover have "12 \<notin> node ` set (globalDict ?st)" by (simp add: example_index)
  with o have "nodeValue st' 12 = nodeValue ?st 12" by blast
  then have "nodeValue st' 12 = ''plain''" by (simp add: nv)
  moreover have "map (\<lambda>it. (node it, spec_text (dict it) (currentLang ?st))) (globalDict ?st)
      = [(10, ''Hello''), (11, ''Hello'')]"
    by (simp add: example_index spec_text_def dict_get_def)
  with w have "nodeValue_writes st' = [(10, ''Hello''), (11, ''Hello'')]"
    by (simp add: nv)
  moreover from e have "elements st' = [\<lparr>autolang = Some ''en'', display = []\<rparr>,
           \<lparr>autolang = None, display = []\<rparr>,
           \<lparr>autolang = Some ''ca'', display = ''none''\<rparr>]"
    by (simp add: nv spec_visibility_def)
  ultimately show ?thesis using h1 h2 h4 st' by simp
qed

subsection \<open>Claim C4\<close>

text \<open>
  Claim C4. For every state and every language code as current language, a second
  \<^verbatim>\<open>applyLang\<close> right after the first returns normally, as the first does, and leaves
  every node value and every element as the first call left them; when the indexed nodes
  are pairwise different (as the index build makes them) the second call changes nothing
  at all, so it assigns no node value.
\<close>

theorem applyLang_idempotent:
  assumes "is_lang_code (currentLang st)"
  shows "\<exists>st1 st2. applyLang other st = Normal st1 \<and> applyLang other st1 = Normal st2
     \<and> nodeValue st2 = nodeValue st1 \<and> elements st2 = elements st1
     \<and> (distinct (map node (globalDict st)) \<longrightarrow> st2 = st1)"
proof -
  let ?items = "globalDict st"
  let ?lang = "currentLang st"
  let ?st1 = "(fold update_node ?items st)\<lparr>elements := map (spec_visibility ?lang) (elements st)\<rparr>"
  let ?st2 = "(fold update_node ?items ?st1)\<lparr>elements := map (spec_visibility ?lang) (elements ?st1)\<rparr>"
  have plain: "css_plain ?lang" using assms by (rule lang_code_css_plain)
  have f1: "currentLang ?st1 = ?lang" "globalDict ?st1 = ?items"
    by (simp_all add: fold_update_node_fields)
  have 1: "applyLang other st = Normal ?st1" using plain by (rule applyLang_plain)
  have 2: "applyLang other ?st1 = Normal ?st2"
    using applyLang_plain [of ?st1 other] plain by (simp only: f1)
  have nv1: "nodeValue ?st1 = nodeValue (fold update_node ?items st)" by simp
  have nv: "nodeValue ?st2 = nodeValue ?st1"
    using fold_update_node_stable [OF f1(1) nv1] by simp
  have el: "elements ?st2 = elements ?st1" by (simp add: spec_visibility_idem)
  have "?st2 = ?st1" if "distinct (map node ?items)"
  proof -
    have w: "nodeValue_writes (fold update_node ?items ?st1) = nodeValue_writes ?st1"
      using f1(1) nv1 that by (rule fold_update_node_no_writes)
    have v: "nodeValue (fold update_node ?items ?st1) = nodeValue ?st1"
      using f1(1) nv1 by (rule fold_update_node_stable)
    have "fold update_node ?items ?st1 =
        ?st1\<lparr>nodeValue := nodeValue (fold update_node ?items ?st1),
             nodeValue_writes := nodeValue_writes (fold update_node ?items ?st1)\<rparr>"
      by (rule fold_update_node_frame)
    also have "\<dots> = ?st1" unfolding w v by simp
    finally have "fold update_node ?items ?st1 = ?st1" .
    then show ?thesis by (simp add: spec_visibility_idem)
  qed
  with 1 2 nv el show ?thesis by blast
qed

text \<open>The theorem on the sample page, index built, language \<^verbatim>\<open>en\<close>.\<close>

theorem applyLang_idempotent_witness:
  "is_lang_code ''en''
   \<and> applyLang strict_engine (state_of (applyLang strict_engine ((buildIndex example_page)\<lparr>currentLang := ''en''\<rparr>)))
     = applyLang strict_engine ((buildIndex example_page)\<lparr>currentLang := ''en''\<rparr>)"
proof -
  let ?st = "(buildIndex example_page)\<lparr>currentLang := ''en''\<rparr>"
  have h: "is_lang_code (currentLang ?st)" by (simp add: is_lang_code_def lower_az_def)
  have d: "distinct (map node (globalDict ?st))" by (simp add: example_index)
  from applyLang_idempotent [OF h, of strict_engine] d
  obtain st1 st2 where a: "applyLang strict_engine ?st = Normal st1"
    and b: "applyLang strict_engine st1 = Normal st2"
    and c: "distinct (map node (globalDict ?st)) \<longrightarrow> st2 = st1"
    by (elim exE conjE) (rule that)
  from c d have "st2 = st1" by (rule mp)
  with a b show ?thesis using h by simp
qed

subsection \<open>Claim C5\<close>

text \<open>
  Claim C5. The index build on a fresh module (\<^verbatim>\<open>globalDict\<close> empty) indexes exactly
  the text nodes whose blob parses to a non-empty dictionary, in document order, and
  warns exactly once for each of them that lacks the default language, naming its first
  key and the head of its node value. So every text node with a tag that has content is
  in the index. Every entry of the index belongs to a text node of the page, and its
  dictionary is not empty and has an entry for \<^const>\<open>DEFAULT_LANG\<close>: when the parsed
  blob has the default language the dictionary is the parsed one; when it has not, the
  dictionary is the parsed one with the default slot appended, holding the value of the
  first key, the warning for that first key and node value is on the console, and
  \<^verbatim>\<open>applyLang\<close> for any language code without an entry in the blob leaves that copied
  text in the node, whatever the rest of the state and the selector engine are.
\<close>

theorem buildIndex_default_entry:
  assumes "globalDict st = []"
  shows "map node (globalDict (buildIndex st))
        = filter (\<lambda>n. parse (nodeValue st n) \<noteq> []) (textNodes st)
     \<and> console (buildIndex st) = console st @
          map (\<lambda>n. missing_default_warning (fst (hd (parse (nodeValue st n)))) (nodeValue st n))
            (filter (\<lambda>n. parse (nodeValue st n) \<noteq> []
                       \<and> dict_get (parse (nodeValue st n)) DEFAULT_LANG = None) (textNodes st))
     \<and> (\<forall>n \<in> set (textNodes st). parse (nodeValue st n) \<noteq> [] \<longrightarrow>
          (\<exists>it \<in> set (globalDict (buildIndex st)). node it = n))
     \<and> (\<forall>it \<in> set (globalDict (buildIndex st)).
          dict it \<noteq> [] \<and> dict_get (dict it) DEFAULT_LANG \<noteq> None
          \<and> node it \<in> set (textNodes st) \<and> parse (nodeValue st (node it)) \<noteq> []
          \<and> (dict_get (parse (nodeValue st (node it))) DEFAULT_LANG \<noteq> None \<longrightarrow>
               dict it = parse (nodeValue st (node it)))
          \<and> (dict_get (parse (nodeValue st (node it))) DEFAULT_LANG = None \<longrightarrow>
               (\<exists>k x rest. parse (nodeValue st (node it)) = (k, x) # rest
                  \<and> dict it = parse (nodeValue st (node it)) @ [(DEFAULT_LANG, x)]
                  \<and> dict_get (dict it) DEFAULT_LANG = Some x
                  \<and> missing_default_warning k (nodeValue st (node it))
                       \<in> set (console (buildIndex st))
                  \<and> (\<forall>st' other. globalDict st' = globalDict (buildIndex st)
                         \<and> is_lang_code (currentLang st')
                         \<and> dict_get (parse (nodeValue st (node it))) (currentLang st') = None \<longrightarrow>
                         nodeValue (state_of (applyLang other st')) (node it) = x))))"
proof (intro conjI ballI impI)
  show "map node (globalDict (buildIndex st))
        = filter (\<lambda>n. parse (nodeValue st n) \<noteq> []) (textNodes st)"
    using assms by (rule buildIndex_nodes)
next
  show "console (buildIndex st) = console st @
          map (\<lambda>n. missing_default_warning (fst (hd (parse (nodeValue st n)))) (nodeValue st n))
            (filter (\<lambda>n. parse (nodeValue st n) \<noteq> []
                       \<and> dict_get (parse (nodeValue st n)) DEFAULT_LANG = None) (textNodes st))"
    by (rule buildIndex_console_eq)
next
  fix n assume "n \<in> set (textNodes st)" "parse (nodeValue st n) \<noteq> []"
  with assms show "\<exists>it \<in> set (globalDict (buildIndex st)). node it = n"
    by (rule tagged_node_indexed)
next
  fix it assume it: "it \<in> set (globalDict (buildIndex st))"
  note d = indexed_item_default [OF assms it]
  from d show "dict it \<noteq> []" by blast
  from d show "dict_get (dict it) DEFAULT_LANG \<noteq> None" by blast
  from d show "node it \<in> set (textNodes st)" by blast
  from d show "parse (nodeValue st (node it)) \<noteq> []" by blast
  { assume "dict_get (parse (nodeValue st (node it))) DEFAULT_LANG \<noteq> None"
    with d show "dict it = parse (nodeValue st (node it))" by blast }
  { assume "dict_get (parse (nodeValue st (node it))) DEFAULT_LANG = None"
    with d show "\<exists>k x rest. parse (nodeValue st (node it)) = (k, x) # rest
                  \<and> dict it = parse (nodeValue st (node it)) @ [(DEFAULT_LANG, x)]
                  \<and> dict_get (dict it) DEFAULT_LANG = Some x
                  \<and> missing_default_warning k (nodeValue st (node it))
                       \<in> set (console (buildIndex st))
                  \<and> (\<forall>st' other. globalDict st' = globalDict (buildIndex st)
                         \<and> is_lang_code (currentLang st')
                         \<and> dict_get (parse (nodeValue st (node it))) (currentLang st') = None \<longrightarrow>
                         nodeValue (state_of (applyLang other st')) (node it) = x)"
      by blast }
qed

text \<open>
  The theorem on the sample page: the nodes 10 and 11 are indexed, the node without a
  tag is not, one warning is on the console; the node \<^verbatim>\<open>[[en]]Hello\<close> gets the
  default slot \<^verbatim>\<open>ca\<close> with \<^verbatim>\<open>Hello\<close>, and applying \<^verbatim>\<open>fr\<close> renders
  \<^verbatim>\<open>Hello\<close>.
\<close>

theorem buildIndex_default_entry_witness:
  "globalDict example_page = []
   \<and> map node (globalDict (buildIndex example_page)) = [10, 11]
   \<and> console (buildIndex example_page) = [missing_default_warning ''en'' ''[[en]]Hello'']
   \<and> 11 \<in> set (textNodes example_page)
   \<and> parse (nodeValue example_page 11) = [(''en'', ''Hello'')]
   \<and> \<lparr>node = 11, dict = [(''en'', ''Hello''), (''ca'', ''Hello'')]\<rparr>
        \<in> set (globalDict (buildIndex example_page))
   \<and> nodeValue (state_of (applyLang strict_engine ((buildIndex example_page)\<lparr>currentLang := ''fr''\<rparr>))) 11
        = ''Hello''"
proof -
  let ?st' = "(buildIndex example_page)\<lparr>currentLang := ''fr''\<rparr>"
  have h1: "globalDict example_page = []" by (simp add: example_page_def)
  note T = buildIndex_default_entry [OF h1]
  have nv: "nodeValue example_page 10 = ''[[ca]]Hola[[en]]Hello''"
    "nodeValue example_page 11 = ''[[en]]Hello''" "nodeValue example_page 12 = ''plain''"
    "textNodes example_page = [10, 11, 12]" "console example_page = []"
    by (simp_all add: example_page_def)
  have p: "parse ''[[ca]]Hola[[en]]Hello'' = [(''ca'', ''Hola''), (''en'', ''Hello'')]"
    "parse ''[[en]]Hello'' = [(''en'', ''Hello'')]" "parse ''plain'' = []"
    by (simp_all add: parse_eval)
  from T have nodes: "map node (globalDict (buildIndex example_page)) = [10, 11]"
    by (simp add: nv p)
  from T have cons: "console (buildIndex example_page) = [missing_default_warning ''en'' ''[[en]]Hello'']"
    by (simp add: nv p dict_get_def DEFAULT_LANG_def)
  have mem: "11 \<in> set (textNodes example_page)" by (simp add: nv)
  have p11: "parse (nodeValue example_page 11) = [(''en'', ''Hello'')]" by (simp add: nv p)
  from T mem p11 obtain it where it: "it \<in> set (globalDict (buildIndex example_page))" "node it = 11"
    by fastforce
  have no: "dict_get (parse (nodeValue example_page (node it))) DEFAULT_LANG = None"
    "dict_get (parse (nodeValue example_page (node it))) (currentLang ?st') = None"
    by (simp_all add: it(2) p11 dict_get_def DEFAULT_LANG_def)
  have code: "is_lang_code (currentLang ?st')" by (simp add: is_lang_code_def lower_az_def)
  from T it(1) no(1) obtain k x rest where
    kx: "parse (nodeValue example_page (node it)) = (k, x) # rest"
    and dd: "dict it = parse (nodeValue example_page (node it)) @ [(DEFAULT_LANG, x)]"
    and a: "\<forall>st' other. globalDict st' = globalDict (buildIndex example_page)
              \<and> is_lang_code (currentLang st')
              \<and> dict_get (parse (nodeValue example_page (node it))) (currentLang st') = None \<longrightarrow>
              nodeValue (state_of (applyLang other st')) (node it) = x"
    by blast
  from kx p11 it(2) have x: "x = ''Hello''" by simp
  from dd x p11 it(2) have "it = \<lparr>node = 11, dict = [(''en'', ''Hello''), (''ca'', ''Hello'')]\<rparr>"
    by (cases it) (simp add: DEFAULT_LANG_def)
  with it(1) have item: "\<lparr>node = 11, dict = [(''en'', ''Hello''), (''ca'', ''Hello'')]\<rparr>
        \<in> set (globalDict (buildIndex example_page))" by simp
  from a code no(2) have "nodeValue (state_of (applyLang strict_engine ?st')) (node it) = x" by simp
  with x it(2) have "nodeValue (state_of (applyLang strict_engine ?st')) 11 = ''Hello''" by simp
  with h1 nodes cons mem p11 item show ?thesis by simp
qed

subsection \<open>Claim C6\<close>

text \<open>
  Claim C6, as the code has it. \<^verbatim>\<open>setLang\<close> checks that its argument is not
  \<^verbatim>\<open>null\<close>, not empty and of length 2, and nothing else: after the call, however it
  ends, \<^verbatim>\<open>currentLang\<close> is the argument when that is a string of exactly two
  characters, and the prior value otherwise.
\<close>

theorem setLang_currentLang:
  "currentLang (state_of (setLang other lang st)) =
     (case lang of
        None \<Rightarrow> currentLang st
      | Some l \<Rightarrow> if length l = 2 then l else currentLang st)"
proof (cases lang)
  case None
  then show ?thesis by (simp add: setLang_reject)
next
  case (Some l)
  show ?thesis
  proof (cases "length l = 2")
    case True
    then show ?thesis
      by (simp add: Some setLang_accept applyLang_fields split: sum.splits)
  next
    case False
    then show ?thesis by (simp add: Some setLang_reject)
  qed
qed

text \<open>
  Claim C6 as stated fails: \<^verbatim>\<open>setLang("EN")\<close> is not rejected. It returns normally,
  persists \<^verbatim>\<open>EN\<close> and leaves \<^verbatim>\<open>currentLang = "EN"\<close>, which is not two lowercase
  letters.
\<close>

theorem setLang_accepts_any_two_characters:
  "currentLang example_page = ''ca''
   \<and> setLang strict_engine (Some ''EN'') example_page
       = applyLang strict_engine (example_page\<lparr>currentLang := ''EN'',
            localStorage := Available [''lang'' \<mapsto> ''EN'']\<rparr>)
   \<and> currentLang (state_of (setLang strict_engine (Some ''EN'') example_page)) = ''EN''
   \<and> raised (setLang strict_engine (Some ''EN'') example_page) = None
   \<and> \<not> is_lang_code ''EN''"
proof -
  have 1: "setLang strict_engine (Some ''EN'') example_page
       = applyLang strict_engine (example_page\<lparr>currentLang := ''EN'',
            localStorage := Available [''lang'' \<mapsto> ''EN'']\<rparr>)"
    by (simp add: setLang_accept example_page_def LANG_STORAGE_KEY_def)
  have "css_plain ''EN''" by (simp add: css_plain_def)
  then have 2: "raised (applyLang strict_engine (example_page\<lparr>currentLang := ''EN'',
            localStorage := Available [''lang'' \<mapsto> ''EN'']\<rparr>)) = None"
    by (simp add: applyLang_plain)
  have 3: "currentLang example_page = ''ca''" by (simp add: example_page_def)
  have 4: "\<not> is_lang_code ''EN''" by (simp add: is_lang_code_def lower_az_def)
  from 1 2 3 4 show ?thesis by (simp add: applyLang_fields)
qed

subsection \<open>Claim C7\<close>

text \<open>
  Claim C7. For an argument that is \<^verbatim>\<open>null\<close>/absent or a string whose length is
  not 2, \<^verbatim>\<open>setLang\<close> returns normally and the state it leaves is the state it found
  with one warning more on the console: \<^verbatim>\<open>currentLang\<close>, the storage, every node
  value, every element and the index are unchanged, and no node value is assigned.
\<close>

theorem setLang_invalid_argument:
  assumes "lang = None \<or> (\<exists>l. lang = Some l \<and> length l \<noteq> 2)"
  shows "setLang other lang st = Normal (st\<lparr>console := console st @ [invalid_lang_warning lang]\<rparr>)
     \<and> raised (setLang other lang st) = None
     \<and> console (state_of (setLang other lang st)) = console st @ [invalid_lang_warning lang]
     \<and> currentLang (state_of (setLang other lang st)) = currentLang st
     \<and> localStorage (state_of (setLang other lang st)) = localStorage st
     \<and> nodeValue (state_of (setLang other lang st)) = nodeValue st
     \<and> nodeValue_writes (state_of (setLang other lang st)) = nodeValue_writes st
     \<and> elements (state_of (setLang other lang st)) = elements st
     \<and> globalDict (state_of (setLang other lang st)) = globalDict st"
  by (simp add: setLang_reject [OF assms])

text \<open>The theorem at \<^verbatim>\<open>setLang(null)\<close> and \<^verbatim>\<open>setLang("x")\<close> on the sample page.\<close>

theorem setLang_invalid_argument_witness:
  "setLang strict_engine None example_page
     = Normal (example_page\<lparr>console := console example_page @ [invalid_lang_warning None]\<rparr>)
   \<and> setLang strict_engine (Some ''x'') example_page
     = Normal (example_page\<lparr>console := console example_page @ [invalid_lang_warning (Some ''x'')]\<rparr>)
   \<and> currentLang (state_of (setLang strict_engine (Some ''x'') example_page)) = currentLang example_page"
proof -
  have h: "Some ''x'' = None \<or> (\<exists>l. Some ''x'' = Some l \<and> length l \<noteq> 2)" by simp
  from setLang_invalid_argument [of None strict_engine example_page]
    setLang_invalid_argument [OF h, of strict_engine example_page]
  show ?thesis by simp
qed

subsection \<open>Claim C8\<close>

text \<open>
  Claim C8. Let every access to \<^verbatim>\<open>localStorage\<close> throw, and let
  \<^verbatim>\<open>isStorageEnabled\<close> be what the probe finds on it. Then the probe catches the
  exception and answers \<^verbatim>\<open>false\<close>; reading the persisted choice gives \<^verbatim>\<open>null\<close>
  without touching the storage, so the resolver skips it; loading the module raises
  nothing; and \<^verbatim>\<open>setLang\<close> (accepted or rejected), \<^verbatim>\<open>applyLang\<close> and the
  \<^verbatim>\<open>DOMContentLoaded\<close> handler never raise a \<^const>\<open>SecurityError\<close>, leave the
  storage as it is and the flag off, so the same holds for whatever is called next.
\<close>

theorem storage_unavailable:
  assumes "localStorage st = Unavailable"
    and "isStorageEnabled st = fst (isStorageEnabled_probe (localStorage st))"
  shows "isStorageEnabled_probe (localStorage st) = (False, Unavailable)
     \<and> \<not> isStorageEnabled st
     \<and> getLangFromStorage st = Inr None
     \<and> resolveInitial st = Inr (first_nonempty [getLangParam st,
           map_option (take 2) (environment_language st), Some DEFAULT_LANG])
     \<and> raised (load st) = None
     \<and> localStorage (state_of (load st)) = Unavailable
     \<and> \<not> isStorageEnabled (state_of (load st))
     \<and> raised (setLang other lang st) \<noteq> Some SecurityError
     \<and> localStorage (state_of (setLang other lang st)) = Unavailable
     \<and> \<not> isStorageEnabled (state_of (setLang other lang st))
     \<and> raised (applyLang other st) \<noteq> Some SecurityError
     \<and> localStorage (state_of (applyLang other st)) = Unavailable
     \<and> \<not> isStorageEnabled (state_of (applyLang other st))
     \<and> raised (DOMContentLoaded other st) \<noteq> Some SecurityError
     \<and> localStorage (state_of (DOMContentLoaded other st)) = Unavailable
     \<and> \<not> isStorageEnabled (state_of (DOMContentLoaded other st))"
proof -
  from assms have off: "\<not> isStorageEnabled st" by (simp add: probe_Unavailable)
  have probe: "isStorageEnabled_probe (localStorage st) = (False, Unavailable)"
    using assms(1) by (simp add: probe_Unavailable)
  have get: "getLangFromStorage st = Inr None" using off by (simp add: getLangFromStorage_def)
  have res: "resolveInitial st = Inr (first_nonempty [getLangParam st,
           map_option (take 2) (environment_language st), Some DEFAULT_LANG])"
    using resolveInitial_spec [OF assms(2)] assms(1)
    by (cases "getLangParam st") (simp_all add: spec_resolveInitial_def persisted_choice_def)
  have ld: "raised (load st) = None" "localStorage (state_of (load st)) = Unavailable"
    "\<not> isStorageEnabled (state_of (load st))"
    by (simp_all add: load_eq probe)
  have set: "raised (setLang other lang st) \<noteq> Some SecurityError
     \<and> localStorage (state_of (setLang other lang st)) = Unavailable
     \<and> \<not> isStorageEnabled (state_of (setLang other lang st))"
  proof (cases "lang = None \<or> (\<exists>l. lang = Some l \<and> length l \<noteq> 2)")
    case True
    then show ?thesis using assms(1) off by (simp add: setLang_reject)
  next
    case False
    then obtain l where l: "lang = Some l" "length l = 2" by auto
    show ?thesis using assms(1) off
      by (simp add: l setLang_accept applyLang_fields applyLang_raised)
  qed
  have app: "raised (applyLang other st) \<noteq> Some SecurityError"
    "localStorage (state_of (applyLang other st)) = Unavailable"
    "\<not> isStorageEnabled (state_of (applyLang other st))"
    using assms(1) off by (simp_all add: applyLang_fields applyLang_raised)
  have dom: "raised (DOMContentLoaded other st) \<noteq> Some SecurityError"
    "localStorage (state_of (DOMContentLoaded other st)) = Unavailable"
    "\<not> isStorageEnabled (state_of (DOMContentLoaded other st))"
    using assms(1) off
    by (simp_all add: DOMContentLoaded_def applyLang_fields applyLang_raised buildIndex_fields)
  from probe off get res ld set app dom show ?thesis by blast
qed

text \<open>
  The theorem on the sample page with storage disabled: \<^verbatim>\<open>setLang("en")\<close> is
  accepted, writes nothing to the storage and raises nothing.
\<close>

theorem storage_unavailable_witness:
  "localStorage (example_page\<lparr>localStorage := Unavailable, isStorageEnabled := False\<rparr>) = Unavailable
   \<and> getLangFromStorage (example_page\<lparr>localStorage := Unavailable, isStorageEnabled := False\<rparr>) = Inr None
   \<and> raised (load (example_page\<lparr>localStorage := Unavailable, isStorageEnabled := False\<rparr>)) = None
   \<and> raised (setLang strict_engine (Some ''en'')
        (example_page\<lparr>localStorage := Unavailable, isStorageEnabled := False\<rparr>)) \<noteq> Some SecurityError
   \<and> localStorage (state_of (setLang strict_engine (Some ''en'')
        (example_page\<lparr>localStorage := Unavailable, isStorageEnabled := False\<rparr>))) = Unavailable
   \<and> currentLang (state_of (setLang strict_engine (Some ''en'')
        (example_page\<lparr>localStorage := Unavailable, isStorageEnabled := False\<rparr>))) = ''en''"
proof -
  let ?st = "example_page\<lparr>localStorage := Unavailable, isStorageEnabled := False\<rparr>"
  have h1: "localStorage ?st = Unavailable" by simp
  have h2: "isStorageEnabled ?st = fst (isStorageEnabled_probe (localStorage ?st))"
    by (simp add: isStorageEnabled_probe_def)
  have c: "currentLang (state_of (setLang strict_engine (Some ''en'') ?st)) = ''en''"
    by (simp add: setLang_accept applyLang_fields)
  from storage_unavailable [OF h1 h2, of strict_engine "Some ''en''"] c
  show ?thesis by simp
qed

subsection \<open>Claim C9\<close>

text \<open>
  Claim C9, as the code has it: among the tags of one code that are followed by at least
  one character other than \<^verbatim>\<open>[\<close>, the last one in the string gives the entry, with
  its content up to the next \<^verbatim>\<open>[\<close>; whatever stands before it, tags of the same code
  included, does not matter. In particular \<^verbatim>\<open>[[xx]]A[[xx]]B\<close> with \<open>A\<close> and \<open>B\<close>
  free of \<^verbatim>\<open>[\<close> and \<open>B\<close> non-empty parses to exactly \<open>{xx: B}\<close>.
\<close>

theorem parse_last_tag_wins:
  "(is_lang_code c \<and> t \<noteq> [] \<and> CHR ''['' \<notin> set t \<and> (post = [] \<or> hd post = CHR ''['')
      \<and> (\<forall>p a q. post = p @ tag c @ a # q \<longrightarrow> a = CHR ''['') \<longrightarrow>
        dict_get (parse (pre @ tag c @ t @ post)) c = Some t)
   \<and> (is_lang_code c' \<and> B \<noteq> [] \<and> CHR ''['' \<notin> set A \<and> CHR ''['' \<notin> set B \<longrightarrow>
        parse (tag c' @ A @ tag c' @ B) = [(c', B)])"
proof (intro conjI impI)
  assume "is_lang_code c \<and> t \<noteq> [] \<and> CHR ''['' \<notin> set t \<and> (post = [] \<or> hd post = CHR ''['')
      \<and> (\<forall>p a q. post = p @ tag c @ a # q \<longrightarrow> a = CHR ''['')"
  then show "dict_get (parse (pre @ tag c @ t @ post)) c = Some t"
    by (intro parse_last_tag) simp_all
next
  assume "is_lang_code c' \<and> B \<noteq> [] \<and> CHR ''['' \<notin> set A \<and> CHR ''['' \<notin> set B"
  then show "parse (tag c' @ A @ tag c' @ B) = [(c', B)]"
    by (intro parse_same_tag_twice) simp_all
qed

text \<open>The theorem at \<^verbatim>\<open>[[en]]Hello[[ca]]Hola[[en]]Hi\<close> and at \<^verbatim>\<open>[[en]]A[[en]]B\<close>.\<close>

theorem parse_last_tag_wins_witness:
  "dict_get (parse ((tag ''en'' @ ''Hello'' @ tag ''ca'' @ ''Hola'') @ tag ''en'' @ ''Hi'' @ []))
      ''en'' = Some ''Hi''
   \<and> parse (tag ''en'' @ ''A'' @ tag ''en'' @ ''B'') = [(''en'', ''B'')]"
proof -
  have h: "is_lang_code ''en''" by (simp add: parse_eval)
  from parse_last_tag_wins [of "''en''" "''Hi''" "[]" "tag ''en'' @ ''Hello'' @ tag ''ca'' @ ''Hola''"
      "''en''" "''B''" "''A''"] h
  show ?thesis by auto
qed

text \<open>
  Claim C9 as stated fails when the last tag of the code has no content: in
  \<^verbatim>\<open>[[en]]A[[en]]\<close> the code appears in two tags, and the entry is the content of
  the first one.
\<close>

theorem parse_empty_last_tag_keeps_earlier:
  "parse (tag ''en'' @ ''A'' @ tag ''en'' @ []) = [(''en'', ''A'')]
   \<and> dict_get (parse (tag ''en'' @ ''A'' @ tag ''en'' @ [])) ''en'' \<noteq> Some []"
  by (simp add: parse_eval)

subsection \<open>Claim C10\<close>

text \<open>
  Claim C10. A tag \<^verbatim>\<open>[[xx]]\<close> directly followed by \<^verbatim>\<open>[\<close> or by the end of the
  string is no match of the regular expression; at the head of a blob it changes nothing
  (the blob parses as it does without the tag), and wherever it stands, an entry for
  \<open>xx\<close> in the dictionary comes from another tag of the blob, one with content.
  So every value of a parsed dictionary is a non-empty string, and so is every value of
  every dictionary of the index.
\<close>

theorem empty_tag_no_entry:
  "(is_lang_code c \<and> (post = [] \<or> hd post = CHR ''['') \<longrightarrow>
      LANG_REG_EXP_at (tag c @ post) = None
      \<and> parse (tag c @ post) = parse post
      \<and> (\<forall>t. dict_get (parse (pre @ tag c @ post)) c = Some t \<longrightarrow>
            (\<exists>pre' post'. pre @ tag c @ post = pre' @ tag c @ t @ post' \<and> t \<noteq> []
               \<and> length pre' \<noteq> length pre)))
   \<and> (\<forall>(k, v) \<in> set (parse s). v \<noteq> [])
   \<and> (globalDict st = [] \<longrightarrow>
        (\<forall>it \<in> set (globalDict (buildIndex st)). \<forall>(k, v) \<in> set (dict it). v \<noteq> []))"
proof (intro conjI impI allI)
  assume a: "is_lang_code c \<and> (post = [] \<or> hd post = CHR ''['')"
  then show "LANG_REG_EXP_at (tag c @ post) = None"
    by (intro LANG_REG_EXP_at_empty_content) simp_all
  from a show "parse (tag c @ post) = parse post"
    by (intro parse_skip_tag) simp_all
  fix t assume "dict_get (parse (pre @ tag c @ post)) c = Some t"
  with a show "\<exists>pre' post'. pre @ tag c @ post = pre' @ tag c @ t @ post' \<and> t \<noteq> []
               \<and> length pre' \<noteq> length pre"
    by (intro entry_from_other_tag) simp_all
next
  show "\<forall>(k, v) \<in> set (parse s). v \<noteq> []"
    by (auto dest: parse_values_nonempty)
next
  assume "globalDict st = []"
  then show "\<forall>it \<in> set (globalDict (buildIndex st)). \<forall>(k, v) \<in> set (dict it). v \<noteq> []"
    by (auto dest: buildIndex_values)
qed

text \<open>
  The theorem at \<^verbatim>\<open>[[en]][[ca]]Hola\<close>, at \<^verbatim>\<open>[[en]]\<close>, at \<^verbatim>\<open>[[en]]first[[en]]\<close>
  and on the index of the sample page.
\<close>

theorem empty_tag_no_entry_witness:
  "is_lang_code ''en''
   \<and> parse (tag ''en'' @ ''[[ca]]Hola'') = [(''ca'', ''Hola'')]
   \<and> parse (tag ''en'' @ []) = []
   \<and> dict_get (parse (''[[en]]first'' @ tag ''en'' @ [])) ''en'' = Some ''first''
   \<and> (\<exists>pre' post'. ''[[en]]first'' @ tag ''en'' @ [] = pre' @ tag ''en'' @ ''first'' @ post'
         \<and> length pre' \<noteq> length ''[[en]]first'')
   \<and> globalDict example_page = []
   \<and> dict_get [(''en'', ''Hello''), (''ca'', ''Hello'')] ''ca'' \<noteq> Some []"
proof -
  have h: "is_lang_code ''en''" by (simp add: parse_eval)
  have p: "parse ''[[ca]]Hola'' = [(''ca'', ''Hola'')]" "parse [] = []"
    "dict_get (parse (''[[en]]first'' @ tag ''en'' @ [])) ''en'' = Some ''first''"
    by (simp_all add: parse_eval)
  have g: "globalDict example_page = []" by (simp add: example_page_def)
  have i: "\<lparr>node = 11, dict = [(''en'', ''Hello''), (''ca'', ''Hello'')]\<rparr>
      \<in> set (globalDict (buildIndex example_page))" by (simp add: example_index)
  from empty_tag_no_entry [of "''en''" "''[[ca]]Hola''" "[]" "[]" example_page] h p(1)
  have 1: "parse (tag ''en'' @ ''[[ca]]Hola'') = [(''ca'', ''Hola'')]" by simp
  from empty_tag_no_entry [of "''en''" "[]" "''[[en]]first''" "[]" example_page] h p(2,3)
  have 2: "parse (tag ''en'' @ []) = []"
    and 3: "\<exists>pre' post'. ''[[en]]first'' @ tag ''en'' @ [] = pre' @ tag ''en'' @ ''first'' @ post'
         \<and> length pre' \<noteq> length ''[[en]]first''"
    by auto
  from empty_tag_no_entry [of "''en''" "[]" "[]" "[]" example_page] g i
  have 4: "dict_get [(''en'', ''Hello''), (''ca'', ''Hello'')] ''ca'' \<noteq> Some []"
    by (auto simp: dict_get_def)
  from h 1 2 3 4 g p(3) show ?thesis by simp
qed

end
